theory Spec2Isabelle
  imports Complex_Main "HOL-Library.Multiset" "HOL-Library.AList"
begin

section \<open>Data model (types.ts as used by App.tsx, constants.ts)\<close>

text \<open>
  A tier row is \<^verbatim>\<open>{id, label, color}\<close> and an image is \<^verbatim>\<open>{id, src}\<close>; all fields are
  strings. The field \<^verbatim>\<open>id\<close> is written \<open>row_id\<close> and \<open>image_id\<close>, because \<open>id\<close> is the
  identity function of HOL.
\<close>

record TierRowData =
  row_id :: string
  label :: string
  color :: string

record TierImage =
  image_id :: string
  src :: string

text \<open>
  \<^verbatim>\<open>Record<string, TierImage[]>\<close>: a JavaScript object. It is modelled as an association
  list in the enumeration order of the object's own keys, which is what
  \<^verbatim>\<open>for (const containerId in items)\<close> walks through. \<open>map_of\<close> is the property read
  \<^verbatim>\<open>items[k]\<close> (\<open>None\<close> is \<^verbatim>\<open>undefined\<close>), \<open>AList.update\<close> is \<^verbatim>\<open>{...prev, [k]: v}\<close> (an
  existing key keeps its place, a new one goes last) and \<open>AList.delete\<close> is
  \<^verbatim>\<open>delete obj[k]\<close>. The keys that the program adds (\<^verbatim>\<open>unranked\<close>, \<^verbatim>\<open>new-row-...\<close>) are no
  array indices such as \<^verbatim>\<open>"0"\<close>, which an object would enumerate first, so a new key does
  go last.
\<close>

type_synonym store = "(string \<times> TierImage list) list"

record app_state =
  rows :: "TierRowData list"
  items :: store
  activeId :: "string option"

definition UNRANKED_ID :: string where
  "UNRANKED_ID = ''unranked''"

datatype ItemTypes = ROW | IMAGE

text \<open>
  What a handler can end in instead of a next state. \<open>TypeError\<close> is the exception that
  JavaScript raises on reading a property of \<^verbatim>\<open>undefined\<close> or on spreading it.
  \<open>UndefinedElement\<close> marks the runs in which the code stores \<^verbatim>\<open>undefined\<close> as an element
  of an array (\<^verbatim>\<open>splice(i, 1)[0]\<close> of an array that has no such element): nothing is raised
  there, but the next state is no value of the declared types any more.
\<close>

datatype failure = TypeError | UndefinedElement

text \<open>
  A property read \<^verbatim>\<open>obj[k]\<close> walks the prototype chain: a plain object without an own key
  \<open>k\<close> still answers with a function, or with the prototype itself, when \<open>k\<close> names a
  property of \<^verbatim>\<open>Object.prototype\<close>. Such a value is truthy, has none of the array methods
  and is not iterable.
\<close>

definition Object_prototype :: "string list" where
  "Object_prototype =
     [''constructor'', ''__defineGetter__'', ''__defineSetter__'', ''hasOwnProperty'',
      ''__lookupGetter__'', ''__lookupSetter__'', ''isPrototypeOf'',
      ''propertyIsEnumerable'', ''toString'', ''valueOf'', ''__proto__'',
      ''toLocaleString'']"

datatype 'a property = Undefined | Inherited | Own 'a

definition get_property :: "(string \<times> 'a) list \<Rightarrow> string \<Rightarrow> 'a property" where
  "get_property obj k =
     (case map_of obj k of
        Some v \<Rightarrow> Own v
      | None \<Rightarrow> if k \<in> set Object_prototype then Inherited else Undefined)"

definition DEFAULT_STATE :: app_state where
  "DEFAULT_STATE =
     \<lparr>rows = [\<lparr>row_id = ''S'', label = ''S'', color = ''#ff7f7f''\<rparr>,
              \<lparr>row_id = ''A'', label = ''A'', color = ''#ffbf7f''\<rparr>,
              \<lparr>row_id = ''B'', label = ''B'', color = ''#ffff7f''\<rparr>,
              \<lparr>row_id = ''C'', label = ''C'', color = ''#7fff7f''\<rparr>,
              \<lparr>row_id = ''D'', label = ''D'', color = ''#7fbfff''\<rparr>],
      items = [(''S'', []), (''A'', []), (''B'', []), (''C'', []), (''D'', []),
               (''unranked'', [])],
      activeId = None\<rparr>"

definition clearStateAndStorage :: "app_state \<Rightarrow> app_state" where
  "clearStateAndStorage s = s\<lparr>rows := rows DEFAULT_STATE, items := items DEFAULT_STATE\<rparr>"


section \<open>Array primitives of the JavaScript runtime\<close>

text \<open>\<^verbatim>\<open>Array.prototype.findIndex\<close>: the first index whose element passes, or \<open>-1\<close>.\<close>

fun findIndexFrom :: "('a \<Rightarrow> bool) \<Rightarrow> int \<Rightarrow> 'a list \<Rightarrow> int" where
  "findIndexFrom P k [] = -1"
| "findIndexFrom P k (x # xs) = (if P x then k else findIndexFrom P (k + 1) xs)"

definition findIndex :: "('a \<Rightarrow> bool) \<Rightarrow> 'a list \<Rightarrow> int" where
  "findIndex P xs = findIndexFrom P 0 xs"

text \<open>
  \<^verbatim>\<open>Array.prototype.splice\<close>: a negative start counts from the end, and the start is
  clamped to \<open>0 .. length\<close>.
\<close>

definition splice_start :: "int \<Rightarrow> nat \<Rightarrow> nat" where
  "splice_start start len =
     (if start < 0 then nat (max (int len + start) 0) else min (nat start) len)"

text \<open>\<^verbatim>\<open>const [x] = xs.splice(start, 1)\<close>: the removed element (\<open>None\<close> is \<^verbatim>\<open>undefined\<close>) and
  what is left of the array.\<close>

definition splice_remove :: "'a list \<Rightarrow> int \<Rightarrow> 'a option \<times> 'a list" where
  "splice_remove xs start =
     (let k = splice_start start (length xs)
      in if k < length xs then (Some (xs ! k), take k xs @ drop (Suc k) xs) else (None, xs))"

text \<open>\<^verbatim>\<open>xs.splice(start, 0, x)\<close>.\<close>

definition splice_insert :: "'a list \<Rightarrow> int \<Rightarrow> 'a \<Rightarrow> 'a list" where
  "splice_insert xs start x =
     (let k = splice_start start (length xs) in take k xs @ x # drop k xs)"

text \<open>
  Modelled from the spec: \<^verbatim>\<open>arrayMove\<close> is imported from the package
  \<^verbatim>\<open>@dnd-kit/sortable\<close> and its source is not part of the repository. The spec describes
  the reposition as: remove the item at \<open>fromIndex\<close> and reinsert it at \<open>toIndex\<close> in the
  same sequence, indices clamped to the updated length. The package does this with two
  \<^verbatim>\<open>splice\<close> calls on a copy,
  \<^verbatim>\<open>copy.splice(to < 0 ? copy.length + to : to, 0, copy.splice(from, 1)[0])\<close>, where the
  insertion index is computed before the removal; outside the index range the definition
  follows \<^verbatim>\<open>splice\<close>.
\<close>

definition arrayMove :: "'a list \<Rightarrow> int \<Rightarrow> int \<Rightarrow> failure + 'a list" where
  "arrayMove array from to =
     (let start = (if to < 0 then int (length array) + to else to);
          (removed, rest) = splice_remove array from
      in case removed of
           None \<Rightarrow> Inl UndefinedElement
         | Some x \<Rightarrow> Inr (splice_insert rest start x))"


section \<open>The handlers of App.tsx\<close>

text \<open>
  A state updater \<^verbatim>\<open>setX(prev => ...)\<close> is applied to the current state: one event is
  handled at a time. A handler that raises produces no next state (\<open>Inl\<close>).

  Where the code calls an array method on the value it reads (\<^verbatim>\<open>items[c].findIndex\<close>,
  \<^verbatim>\<open>newItems[c].push\<close>), an inherited value raises a \<open>TypeError\<close> just as \<^verbatim>\<open>undefined\<close>
  does, so \<open>map_of\<close> decides; the key \<^verbatim>\<open>unranked\<close> names nothing inherited. The reads that tell
  the two apart are \<^verbatim>\<open>newItems[id] || []\<close> and the render's \<^verbatim>\<open>items[k] || []\<close>, which go
  through \<open>get_property\<close>.
\<close>

definition handleImageUpload :: "TierImage list option \<Rightarrow> app_state \<Rightarrow> failure + app_state" where
  "handleImageUpload files s =
     (case files of
        None \<Rightarrow> Inr s
      | Some newImages \<Rightarrow>
          (case map_of (items s) UNRANKED_ID of
             None \<Rightarrow> Inl TypeError
           | Some unranked \<Rightarrow>
               Inr (s\<lparr>items := AList.update UNRANKED_ID (unranked @ newImages) (items s)\<rparr>)))"

text \<open>The argument is the value of \<^verbatim>\<open>crypto.randomUUID()\<close>.\<close>

definition handleAddRow :: "string \<Rightarrow> app_state \<Rightarrow> app_state" where
  "handleAddRow uuid s =
     (let newId = ''new-row-'' @ uuid;
          newRow = \<lparr>row_id = newId, label = ''New Tier'', color = ''#4a4a4a''\<rparr>
      in s\<lparr>rows := rows s @ [newRow], items := AList.update newId [] (items s)\<rparr>)"

definition handleUpdateRow :: "string \<Rightarrow> string \<Rightarrow> string \<Rightarrow> app_state \<Rightarrow> app_state" where
  "handleUpdateRow i newLabel newColor s =
     s\<lparr>rows := map (\<lambda>row. if row_id row = i then row\<lparr>label := newLabel, color := newColor\<rparr>
                          else row) (rows s)\<rparr>"

text \<open>
  \<^verbatim>\<open>newItems[id] || []\<close> replaces \<^verbatim>\<open>undefined\<close> only; the two spreads then raise on
  \<^verbatim>\<open>undefined\<close> and on an inherited value.
\<close>

definition handleDeleteRow :: "string \<Rightarrow> app_state \<Rightarrow> failure + app_state" where
  "handleDeleteRow i s =
     (let itemsToMove = (case get_property (items s) i of Undefined \<Rightarrow> Own [] | p \<Rightarrow> p)
      in case map_of (items s) UNRANKED_ID of
           None \<Rightarrow> Inl TypeError
         | Some unranked \<Rightarrow>
             (case itemsToMove of
                Own xs \<Rightarrow>
                  Inr (s\<lparr>rows := filter (\<lambda>row. row_id row \<noteq> i) (rows s),
                         items := AList.delete i
                                    (AList.update UNRANKED_ID (unranked @ xs) (items s))\<rparr>)
              | _ \<Rightarrow> Inl TypeError))"

text \<open>The loop of \<^verbatim>\<open>findContainer\<close> over the keys of \<^verbatim>\<open>items\<close>.\<close>

fun scanContainers :: "store \<Rightarrow> string \<Rightarrow> string option" where
  "scanContainers [] i = None"
| "scanContainers ((containerId, xs) # rest) i =
     (if list_ex (\<lambda>item. image_id item = i) xs then Some containerId
      else scanContainers rest i)"

definition findContainer :: "TierRowData list \<Rightarrow> store \<Rightarrow> string \<Rightarrow> string option" where
  "findContainer rs its i =
     (if i = UNRANKED_ID \<or> list_ex (\<lambda>r. row_id r = i) rs then Some i
      else scanContainers its i)"

text \<open>
  \<^verbatim>\<open>!c\<close> for \<^verbatim>\<open>c: string | null\<close>: \<^verbatim>\<open>null\<close> and the empty string are falsy.
\<close>

definition truthy_id :: "string option \<Rightarrow> bool" where
  "truthy_id c = (case c of None \<Rightarrow> False | Some k \<Rightarrow> k \<noteq> [])"

text \<open>
  The drag event: the id and \<^verbatim>\<open>data.current?.type\<close> of the dragged element, and of the
  element it is dropped on, if any.
\<close>

record DragEndEvent =
  active_id :: string
  active_type :: "ItemTypes option"
  over :: "(string \<times> ItemTypes option) option"

definition handleDragStart :: "string \<Rightarrow> app_state \<Rightarrow> app_state" where
  "handleDragStart i s = s\<lparr>activeId := Some i\<rparr>"

text \<open>
  The branch of \<^verbatim>\<open>handleDragEnd\<close> for two different containers. The source array is
  spliced in place, so the call of \<^verbatim>\<open>findContainer\<close> that follows sees the item removed
  already.
\<close>

definition moveAcross ::
  "string \<Rightarrow> string \<Rightarrow> string \<Rightarrow> string \<Rightarrow> app_state \<Rightarrow> failure + app_state" where
  "moveAcross activeContainer overContainer a ov s =
     (case map_of (items s) activeContainer of
        None \<Rightarrow> Inl TypeError
      | Some source \<Rightarrow>
          (let activeIndex = findIndex (\<lambda>item. image_id item = a) source;
               (movedItem, source') = splice_remove source activeIndex;
               newItems = AList.update activeContainer source' (items s);
               overIsContainer = (findContainer (rows s) newItems ov = Some ov)
           in case map_of newItems overContainer of
                None \<Rightarrow> Inl TypeError
              | Some dest \<Rightarrow>
                  (case movedItem of
                     None \<Rightarrow> Inl UndefinedElement
                   | Some m \<Rightarrow>
                       (let overIndex = findIndex (\<lambda>item. image_id item = ov) dest;
                            dest' = (if overIsContainer then dest @ [m]
                                     else if overIndex \<noteq> -1 then splice_insert dest overIndex m
                                     else dest @ [m])
                        in Inr (s\<lparr>items := AList.update overContainer dest' newItems,
                                   activeId := None\<rparr>)))))"

text \<open>The branch of \<^verbatim>\<open>handleDragEnd\<close> for one container (or an unresolved one).\<close>

definition moveWithin :: "string option \<Rightarrow> string \<Rightarrow> string \<Rightarrow> app_state \<Rightarrow> failure + app_state" where
  "moveWithin activeContainer a ov s =
     (if truthy_id activeContainer \<and> ov \<noteq> [] then
        (case map_of (items s) (the activeContainer) of
           None \<Rightarrow> Inl TypeError
         | Some xs \<Rightarrow>
             (let activeIndex = findIndex (\<lambda>item. image_id item = a) xs;
                  overIndex = findIndex (\<lambda>item. image_id item = ov) xs
              in if activeIndex \<noteq> -1 \<and> overIndex \<noteq> -1 \<and> activeIndex \<noteq> overIndex then
                   (case arrayMove xs activeIndex overIndex of
                      Inl e \<Rightarrow> Inl e
                    | Inr ys \<Rightarrow>
                        Inr (s\<lparr>items := AList.update (the activeContainer) ys (items s),
                               activeId := None\<rparr>))
                 else Inr (s\<lparr>activeId := None\<rparr>)))
      else Inr (s\<lparr>activeId := None\<rparr>))"

definition handleDragEnd :: "DragEndEvent \<Rightarrow> app_state \<Rightarrow> failure + app_state" where
  "handleDragEnd event s =
     (case over event of
        None \<Rightarrow> Inr (s\<lparr>activeId := None\<rparr>)
      | Some (over_id, over_type) \<Rightarrow>
          if active_type event = Some ROW \<and> over_type = Some ROW then
            (if active_id event \<noteq> over_id then
               (let oldIndex = findIndex (\<lambda>row. row_id row = active_id event) (rows s);
                    newIndex = findIndex (\<lambda>row. row_id row = over_id) (rows s)
                in case arrayMove (rows s) oldIndex newIndex of
                     Inl e \<Rightarrow> Inl e
                   | Inr rs \<Rightarrow> Inr (s\<lparr>rows := rs, activeId := None\<rparr>))
             else Inr (s\<lparr>activeId := None\<rparr>))
          else if active_type event = Some IMAGE then
            (let activeContainer = findContainer (rows s) (items s) (active_id event);
                 overContainer = findContainer (rows s) (items s) over_id
             in if \<not> truthy_id activeContainer \<or> \<not> truthy_id overContainer
                   \<or> activeContainer = overContainer
                then moveWithin activeContainer (active_id event) over_id s
                else moveAcross (the activeContainer) (the overContainer)
                       (active_id event) over_id s)
          else Inr (s\<lparr>activeId := None\<rparr>))"


section \<open>Snapshots: saving and loading\<close>

text \<open>
  A JavaScript value as \<^verbatim>\<open>JSON.parse\<close> returns it. The document that is saved is taken as
  such a value: the text between \<^verbatim>\<open>JSON.stringify\<close> and \<^verbatim>\<open>JSON.parse\<close> belongs to the
  runtime. An object lists its own keys in enumeration order. Of a number the code only
  asks whether it is zero.
\<close>

datatype json =
    JNull
  | JBool bool
  | JNum rat
  | JStr string
  | JArr "json list"
  | JObj "(string \<times> json) list"

text \<open>Truthiness of a value, as \<^verbatim>\<open>&&\<close> and \<^verbatim>\<open>if\<close> test it.\<close>

fun truthy :: "json \<Rightarrow> bool" where
  "truthy JNull = False"
| "truthy (JBool b) = b"
| "truthy (JNum n) = (n \<noteq> 0)"
| "truthy (JStr t) = (t \<noteq> [])"
| "truthy (JArr xs) = True"
| "truthy (JObj fs) = True"

text \<open>The property read \<^verbatim>\<open>data.k\<close> for the two keys of a snapshot; \<open>None\<close> is
  \<^verbatim>\<open>undefined\<close>, which every value other than an object gives for them.\<close>

fun get_field :: "json \<Rightarrow> string \<Rightarrow> json option" where
  "get_field (JObj fs) k = map_of fs k"
| "get_field _ k = None"

definition truthy_field :: "json \<Rightarrow> string \<Rightarrow> bool" where
  "truthy_field data k = (case get_field data k of None \<Rightarrow> False | Some v \<Rightarrow> truthy v)"

text \<open>The typed values of the state as JavaScript values.\<close>

definition row_json :: "TierRowData \<Rightarrow> json" where
  "row_json r =
     JObj [(''id'', JStr (row_id r)), (''label'', JStr (label r)), (''color'', JStr (color r))]"

definition image_json :: "TierImage \<Rightarrow> json" where
  "image_json i = JObj [(''id'', JStr (image_id i)), (''src'', JStr (src i))]"

definition rows_json :: "TierRowData list \<Rightarrow> json" where
  "rows_json rs = JArr (map row_json rs)"

definition items_json :: "store \<Rightarrow> json" where
  "items_json its = JObj (map (\<lambda>(k, xs). (k, JArr (map image_json xs))) its)"

text \<open>
  The other direction: a JavaScript value read at the type that App.tsx declares for the
  state cell it is stored in. The code converts nothing, so nothing may get lost: a value
  is read as a row or an image only when it is exactly the value that stands for it, with
  the declared fields and no others.
\<close>

definition row_of_json :: "json \<Rightarrow> TierRowData option" where
  "row_of_json j =
     (case j of
        JObj fs \<Rightarrow>
          (case (map_of fs ''id'', map_of fs ''label'', map_of fs ''color'') of
             (Some (JStr i), Some (JStr l), Some (JStr c)) \<Rightarrow>
               if j = row_json \<lparr>row_id = i, label = l, color = c\<rparr>
               then Some \<lparr>row_id = i, label = l, color = c\<rparr> else None
           | _ \<Rightarrow> None)
      | _ \<Rightarrow> None)"

definition image_of_json :: "json \<Rightarrow> TierImage option" where
  "image_of_json j =
     (case j of
        JObj fs \<Rightarrow>
          (case (map_of fs ''id'', map_of fs ''src'') of
             (Some (JStr i), Some (JStr u)) \<Rightarrow>
               if j = image_json \<lparr>image_id = i, src = u\<rparr>
               then Some \<lparr>image_id = i, src = u\<rparr> else None
           | _ \<Rightarrow> None)
      | _ \<Rightarrow> None)"

definition rows_of_json :: "json \<Rightarrow> TierRowData list option" where
  "rows_of_json j = (case j of JArr js \<Rightarrow> those (map row_of_json js) | _ \<Rightarrow> None)"

definition container_of_json :: "string \<times> json \<Rightarrow> (string \<times> TierImage list) option" where
  "container_of_json kv =
     (case snd kv of
        JArr js \<Rightarrow> map_option (Pair (fst kv)) (those (map image_of_json js))
      | _ \<Rightarrow> None)"

definition items_of_json :: "json \<Rightarrow> store option" where
  "items_of_json j = (case j of JObj fs \<Rightarrow> those (map container_of_json fs) | _ \<Rightarrow> None)"

text \<open>
  The state after \<^verbatim>\<open>setRows(r); setItems(i)\<close> with loaded values: a typed state when both
  are exactly the values that stand for typed ones, and otherwise the two values as they
  are.
\<close>

datatype loaded = Typed app_state | Untyped json json

definition install :: "json \<Rightarrow> json \<Rightarrow> app_state \<Rightarrow> loaded" where
  "install r i s =
     (case (rows_of_json r, items_of_json i) of
        (Some rs, Some its) \<Rightarrow> Typed (s\<lparr>rows := rs, items := its\<rparr>)
      | _ \<Rightarrow> Untyped r i)"

text \<open>\<^verbatim>\<open>handleSave\<close> and \<^verbatim>\<open>handleDownload\<close>: the document that is written.\<close>

definition handleSave :: "app_state \<Rightarrow> json" where
  "handleSave s = JObj [(''savedRows'', rows_json (rows s)), (''savedItems'', items_json (items s))]"

definition handleDownload :: "app_state \<Rightarrow> json" where
  "handleDownload s =
     JObj [(''savedRows'', rows_json (rows s)), (''savedItems'', items_json (items s))]"

text \<open>
  The effect that loads from local storage. \<open>Absent\<close>: \<^verbatim>\<open>getItem\<close> gave \<^verbatim>\<open>null\<close> or the
  empty string. \<open>Stored None\<close>: \<^verbatim>\<open>JSON.parse\<close> raised. Destructuring \<^verbatim>\<open>null\<close> raises as
  well; every error ends in \<^verbatim>\<open>clearStateAndStorage\<close>.
\<close>

datatype stored = Absent | Stored "json option"

definition loadSaved :: "stored \<Rightarrow> app_state \<Rightarrow> loaded" where
  "loadSaved savedData s =
     (case savedData of
        Absent \<Rightarrow> Typed s
      | Stored None \<Rightarrow> Typed (clearStateAndStorage s)
      | Stored (Some JNull) \<Rightarrow> Typed (clearStateAndStorage s)
      | Stored (Some data) \<Rightarrow>
          if truthy_field data ''savedRows'' \<and> truthy_field data ''savedItems''
          then install (the (get_field data ''savedRows'')) (the (get_field data ''savedItems'')) s
          else Typed s)"

text \<open>
  \<^verbatim>\<open>handleUpload\<close>, once a file is chosen and the dialog confirmed (without either nothing
  happens). \<open>NotString\<close>: the reader's result is no string. \<open>Text None\<close>: \<^verbatim>\<open>JSON.parse\<close>
  raised. Every error is caught and answered with the alert.
\<close>

datatype reader_result = NotString | Text "json option"

datatype notice = BackupLoaded | AlertFailed

definition handleUpload :: "reader_result \<Rightarrow> app_state \<Rightarrow> notice \<times> loaded" where
  "handleUpload result s =
     (case result of
        NotString \<Rightarrow> (AlertFailed, Typed s)
      | Text None \<Rightarrow> (AlertFailed, Typed s)
      | Text (Some data) \<Rightarrow>
          if truthy data \<and> truthy_field data ''savedRows'' \<and> truthy_field data ''savedItems''
          then (BackupLoaded,
                install (the (get_field data ''savedRows''))
                  (the (get_field data ''savedItems'')) s)
          else (AlertFailed, Typed s))"

text \<open>
  What the render shows for a row and for the bank: \<^verbatim>\<open>items[k] || []\<close>, mapped over. An
  inherited value is passed on as it is, and mapping over it raises.
\<close>

definition rendered_items :: "app_state \<Rightarrow> string \<Rightarrow> failure + TierImage list" where
  "rendered_items s k =
     (case get_property (items s) k of
        Undefined \<Rightarrow> Inr []
      | Own xs \<Rightarrow> Inr xs
      | Inherited \<Rightarrow> Inl TypeError)"


section \<open>Sequences of mutations\<close>

datatype mutation =
    AddRow string
  | UpdateRow string string string
  | DeleteRow string
  | ImportImages "TierImage list"
  | DragStart string
  | DragEnd DragEndEvent

fun apply_mutation :: "mutation \<Rightarrow> app_state \<Rightarrow> failure + app_state" where
  "apply_mutation (AddRow uuid) s = Inr (handleAddRow uuid s)"
| "apply_mutation (UpdateRow i l c) s = Inr (handleUpdateRow i l c s)"
| "apply_mutation (DeleteRow i) s = handleDeleteRow i s"
| "apply_mutation (ImportImages imgs) s = handleImageUpload (Some imgs) s"
| "apply_mutation (DragStart i) s = Inr (handleDragStart i s)"
| "apply_mutation (DragEnd event) s = handleDragEnd event s"

fun run :: "app_state \<Rightarrow> mutation list \<Rightarrow> failure + app_state" where
  "run s [] = Inr s"
| "run s (m # ms) = (case apply_mutation m s of Inl e \<Rightarrow> Inl e | Inr s' \<Rightarrow> run s' ms)"

definition image_ids :: "store \<Rightarrow> string list" where
  "image_ids its = map image_id (concat (map snd its))"

text \<open>Every id that a state uses: the bank, the rows, the keys of the store, the images.\<close>

definition ids_in_use :: "app_state \<Rightarrow> string list" where
  "ids_in_use s =
     UNRANKED_ID # map row_id (rows s) @ map fst (items s) @ image_ids (items s)"

text \<open>
  What the interface can ask for in a state. \<^verbatim>\<open>crypto.randomUUID()\<close> gives an id that is
  not in use, for a new row and for every imported image. Only a row that is shown has a
  delete button; the bank has none. What is dragged is a row that is shown, with the type
  \<open>ROW\<close>, or an image of the store, with the type \<open>IMAGE\<close>; it may be dropped anywhere or
  nowhere.
\<close>

fun supported :: "app_state \<Rightarrow> mutation \<Rightarrow> bool" where
  "supported s (AddRow uuid) = (''new-row-'' @ uuid \<notin> set (ids_in_use s))"
| "supported s (UpdateRow i l c) = True"
| "supported s (DeleteRow i) = list_ex (\<lambda>r. row_id r = i) (rows s)"
| "supported s (ImportImages imgs) =
     list_all (\<lambda>img. image_id img \<notin> set (ids_in_use s)) imgs"
| "supported s (DragStart i) = True"
| "supported s (DragEnd event) =
     ((active_type event = Some ROW \<longrightarrow>
         list_ex (\<lambda>r. row_id r = active_id event) (rows s)) \<and>
      (active_type event = Some IMAGE \<longrightarrow>
         active_id event \<in> set (image_ids (items s))))"

fun supported_run :: "app_state \<Rightarrow> mutation list \<Rightarrow> bool" where
  "supported_run s [] = True"
| "supported_run s (m # ms) =
     (supported s m \<and>
      (case apply_mutation m s of Inl e \<Rightarrow> True | Inr s' \<Rightarrow> supported_run s' ms))"

fun imported :: "mutation list \<Rightarrow> TierImage list" where
  "imported [] = []"
| "imported (ImportImages imgs # ms) = imgs @ imported ms"
| "imported (_ # ms) = imported ms"

definition all_items :: "store \<Rightarrow> TierImage multiset" where
  "all_items its = mset (concat (map snd its))"

text \<open>
  The store has a container for the bank and for every row. The default state has, and
  the handlers keep it so; a loaded snapshot need not.
\<close>

definition store_covers_registry :: "app_state \<Rightarrow> bool" where
  "store_covers_registry s =
     (UNRANKED_ID \<in> fst ` set (items s) \<and>
      row_id ` set (rows s) \<subseteq> fst ` set (items s))"

text \<open>
  What the handlers keep of a board: the keys of the store are distinct, every row and the
  bank have a container, no row has the id of the bank, and no image has the id of a row
  or of the bank.
\<close>

definition board_ok :: "app_state \<Rightarrow> bool" where
  "board_ok s =
     (distinct (map fst (items s)) \<and> store_covers_registry s \<and>
      UNRANKED_ID \<notin> row_id ` set (rows s) \<and>
      (\<forall>x \<in> set (image_ids (items s)). x \<noteq> UNRANKED_ID \<and> x \<notin> row_id ` set (rows s)))"


section \<open>The moves as the spec words them\<close>

text \<open>The position of the first element that passes, counted from 0.\<close>

definition position_spec :: "('a \<Rightarrow> bool) \<Rightarrow> 'a list \<Rightarrow> nat" where
  "position_spec P xs = length (takeWhile (\<lambda>x. \<not> P x) xs)"

text \<open>
  The reposition of \<^verbatim>\<open>moveWithin\<close> and \<^verbatim>\<open>reorderTier\<close>: remove the element at
  \<open>fromIndex\<close>, reinsert it at \<open>toIndex\<close>.
\<close>

definition reposition_spec :: "'a list \<Rightarrow> nat \<Rightarrow> nat \<Rightarrow> 'a list" where
  "reposition_spec xs fromIndex toIndex =
     (let rest = take fromIndex xs @ drop (Suc fromIndex) xs
      in take toIndex rest @ xs ! fromIndex # drop toIndex rest)"

text \<open>\<^verbatim>\<open>moveAcross\<close>: the source without the item, the others in their order.\<close>

fun remove_item_spec :: "string \<Rightarrow> TierImage list \<Rightarrow> TierImage list" where
  "remove_item_spec a [] = []"
| "remove_item_spec a (x # xs) = (if image_id x = a then xs else x # remove_item_spec a xs)"

text \<open>\<^verbatim>\<open>moveAcross\<close>: the item put immediately before the item it is dropped on.\<close>

fun insert_before_spec :: "string \<Rightarrow> TierImage \<Rightarrow> TierImage list \<Rightarrow> TierImage list" where
  "insert_before_spec ov m [] = [m]"
| "insert_before_spec ov m (y # ys) =
     (if image_id y = ov then m # y # ys else y # insert_before_spec ov m ys)"


section \<open>Example boards\<close>

definition img :: "string \<Rightarrow> TierImage" where
  "img n = \<lparr>image_id = n, src = ''data:,'' @ n\<rparr>"

definition tier :: "string \<Rightarrow> TierRowData" where
  "tier n = \<lparr>row_id = n, label = n, color = ''#4a4a4a''\<rparr>"

definition drop_image :: "string \<Rightarrow> string \<Rightarrow> ItemTypes \<Rightarrow> DragEndEvent" where
  "drop_image a ov ty = \<lparr>active_id = a, active_type = Some IMAGE, over = Some (ov, Some ty)\<rparr>"

definition drop_row :: "string \<Rightarrow> string \<Rightarrow> DragEndEvent" where
  "drop_row a ov = \<lparr>active_id = a, active_type = Some ROW, over = Some (ov, Some ROW)\<rparr>"

definition example_trace :: "mutation list" where
  "example_trace =
     [ImportImages [img ''a'', img ''b'', img ''c''],
      AddRow ''u1'',
      DragEnd (drop_image ''b'' ''S'' ROW),
      DragEnd (drop_image ''c'' ''b'' IMAGE),
      DragEnd (drop_image ''a'' ''new-row-u1'' ROW),
      DragEnd (drop_image ''b'' ''c'' IMAGE),
      DeleteRow ''S'',
      DragEnd (drop_row ''A'' ''C''),
      UpdateRow ''B'' ''Good'' ''#ffffff'']"

definition example_final :: app_state where
  "example_final =
     \<lparr>rows = [\<lparr>row_id = ''B'', label = ''Good'', color = ''#ffffff''\<rparr>,
              \<lparr>row_id = ''C'', label = ''C'', color = ''#7fff7f''\<rparr>,
              \<lparr>row_id = ''A'', label = ''A'', color = ''#ffbf7f''\<rparr>,
              \<lparr>row_id = ''D'', label = ''D'', color = ''#7fbfff''\<rparr>,
              \<lparr>row_id = ''new-row-u1'', label = ''New Tier'', color = ''#4a4a4a''\<rparr>],
      items = [(''A'', []), (''B'', []), (''C'', []), (''D'', []),
               (''unranked'', [img ''b'', img ''c'']),
               (''new-row-u1'', [img ''a''])],
      activeId = None\<rparr>"

definition cross_example :: app_state where
  "cross_example =
     \<lparr>rows = [tier ''T1'', tier ''T2'', tier ''E''],
      items = [(''T1'', [img ''a'', img ''b'']), (''T2'', [img ''x'', img ''y'']),
               (''E'', []), (''unranked'', [img ''m''])],
      activeId = Some ''b''\<rparr>"

definition within_example :: app_state where
  "within_example =
     \<lparr>rows = [tier ''T'', tier ''K''],
      items = [(''T'', [img ''a'', img ''b'', img ''c'', img ''d'']), (''K'', [img ''k'']),
               (''unranked'', [])],
      activeId = Some ''b''\<rparr>"

definition delete_example :: app_state where
  "delete_example =
     \<lparr>rows = [tier ''T'', tier ''K''],
      items = [(''T'', [img ''a'', img ''b'', img ''c'']), (''K'', [img ''k'']),
               (''unranked'', [img ''x'', img ''y''])],
      activeId = None\<rparr>"

text \<open>A store with a container \<open>Z\<close> that belongs to no row.\<close>

definition orphan_example :: app_state where
  "orphan_example =
     \<lparr>rows = [tier ''K''],
      items = [(''Z'', [img ''a'']), (''K'', [img ''k'']), (''unranked'', [img ''x''])],
      activeId = None\<rparr>"

text \<open>A snapshot whose \<^verbatim>\<open>savedItems\<close> has no key for the bank, and the state it loads as.\<close>

definition partial_snapshot :: json where
  "partial_snapshot =
     JObj [(''savedRows'', JArr [row_json (tier ''S'')]),
           (''savedItems'', JObj [(''S'', JArr [image_json (img ''a'')])])]"

definition partial_state :: app_state where
  "partial_state = \<lparr>rows = [tier ''S''], items = [(''S'', [img ''a''])], activeId = None\<rparr>"

text \<open>A document whose two fields are present but are neither a sequence nor a mapping.\<close>

definition misshaped_snapshot :: json where
  "misshaped_snapshot = JObj [(''savedRows'', JStr ''wrong''), (''savedItems'', JNum 7)]"


section \<open>Facts about the primitives\<close>

lemma mset_splice_remove:
  "splice_remove xs i = (Some m, rest) \<Longrightarrow> mset xs = add_mset m (mset rest)"
proof -
  assume a: "splice_remove xs i = (Some m, rest)"
  define k where "k = splice_start i (length xs)"
  from a have k: "k < length xs" and m: "m = xs ! k" and r: "rest = take k xs @ drop (Suc k) xs"
    by (auto simp: splice_remove_def Let_def k_def split: if_splits)
  have "xs = take k xs @ xs ! k # drop (Suc k) xs"
    using k by (simp add: id_take_nth_drop)
  then have "mset xs = mset (take k xs @ xs ! k # drop (Suc k) xs)" by simp
  then show ?thesis by (simp add: m r)
qed

lemma mset_splice_insert: "mset (splice_insert xs i x) = add_mset x (mset xs)"
proof -
  define k where "k = splice_start i (length xs)"
  have "mset (take k xs @ drop k xs) = mset xs" by (simp only: append_take_drop_id)
  then have "mset (take k xs) + mset (drop k xs) = mset xs" by (simp only: mset_append)
  then show ?thesis by (simp add: splice_insert_def Let_def k_def[symmetric])
qed

lemma mset_arrayMove: "arrayMove xs f t = Inr ys \<Longrightarrow> mset ys = mset xs"
  by (auto simp: arrayMove_def Let_def mset_splice_insert split: prod.splits option.splits
      dest: mset_splice_remove)

lemma set_arrayMove: "arrayMove xs f t = Inr ys \<Longrightarrow> set ys = set xs"
  by (metis mset_arrayMove set_mset_mset)

lemma all_items_update_new:
  "k \<notin> set (map fst its) \<Longrightarrow> all_items (AList.update k v its) = all_items its + mset v"
  by (induction its) (auto simp: all_items_def)

lemma all_items_update_old:
  "map_of its k = Some old \<Longrightarrow>
   all_items (AList.update k v its) + mset old = all_items its + mset v"
  by (induction its) (auto simp: all_items_def)

lemma all_items_delete_absent:
  "map_of its k = None \<Longrightarrow> all_items (AList.delete k its) = all_items its"
  by (induction its) (auto simp: all_items_def AList.delete_eq split: if_splits)

lemma all_items_delete_present:
  "distinct (map fst its) \<Longrightarrow> map_of its k = Some old \<Longrightarrow>
   all_items (AList.delete k its) + mset old = all_items its"
proof (induction its)
  case Nil
  then show ?case by simp
next
  case (Cons p its)
  show ?case
  proof (cases "fst p = k")
    case True
    with Cons.prems have "map_of its k = None" and "snd p = old"
      by (auto simp: map_of_eq_None_iff)
    then show ?thesis using True all_items_delete_absent[of its k]
      by (cases p) (simp add: all_items_def AList.delete_eq)
  next
    case False
    with Cons show ?thesis by (cases p) (auto simp: all_items_def AList.delete_eq)
  qed
qed

lemma all_items_update_same:
  assumes "map_of its k = Some old" and "mset v = mset old"
  shows "all_items (AList.update k v its) = all_items its"
  using all_items_update_old[OF assms(1), of v] assms(2) by simp

lemma all_items_update_add:
  assumes "map_of its k = Some old" and "mset v = add_mset m (mset old)"
  shows "all_items (AList.update k v its) = add_mset m (all_items its)"
  using all_items_update_old[OF assms(1), of v] assms(2) by simp

lemma all_items_update_remove:
  assumes "map_of its k = Some old" and "mset old = add_mset m (mset v)"
  shows "add_mset m (all_items (AList.update k v its)) = all_items its"
  using all_items_update_old[OF assms(1), of v] assms(2) by simp

lemma moveWithin_items:
  assumes "moveWithin c a ov s = Inr s'"
  shows "all_items (items s') = all_items (items s) \<and>
         map fst (items s') = map fst (items s) \<and> rows s' = rows s"
proof (cases "truthy_id c \<and> ov \<noteq> []")
  case False
  with assms show ?thesis by (auto simp: moveWithin_def)
next
  case True
  show ?thesis
  proof (cases "map_of (items s) (the c)")
    case None
    with True assms show ?thesis by (simp add: moveWithin_def)
  next
    case (Some xs)
    have key: "the c \<in> set (map fst (items s))"
      using Some by (metis map_of_eq_None_iff option.distinct(1) set_map)
    define activeIndex where "activeIndex = findIndex (\<lambda>item. image_id item = a) xs"
    define overIndex where "overIndex = findIndex (\<lambda>item. image_id item = ov) xs"
    show ?thesis
    proof (cases "activeIndex \<noteq> -1 \<and> overIndex \<noteq> -1 \<and> activeIndex \<noteq> overIndex")
      case False
      with assms True Some show ?thesis
        by (auto simp: moveWithin_def Let_def activeIndex_def overIndex_def)
    next
      case go: True
      with assms True Some obtain ys where
        am: "arrayMove xs activeIndex overIndex = Inr ys" and
        s': "s' = s\<lparr>items := AList.update (the c) ys (items s), activeId := None\<rparr>"
        by (auto simp: moveWithin_def Let_def activeIndex_def overIndex_def split: sum.splits)
      have "all_items (AList.update (the c) ys (items s)) = all_items (items s)"
        using Some mset_arrayMove[OF am] by (rule all_items_update_same)
      then show ?thesis using s' key by (simp add: AList.update_keys)
    qed
  qed
qed

lemma moveAcross_items:
  assumes "moveAcross ac oc a ov s = Inr s'"
  shows "all_items (items s') = all_items (items s) \<and>
         map fst (items s') = map fst (items s) \<and> rows s' = rows s"
proof -
  from assms obtain source where src: "map_of (items s) ac = Some source"
    by (auto simp: moveAcross_def split: option.splits)
  define activeIndex where "activeIndex = findIndex (\<lambda>item. image_id item = a) source"
  obtain movedItem source' where sp: "splice_remove source activeIndex = (movedItem, source')"
    by (cases "splice_remove source activeIndex") auto
  define newItems where "newItems = AList.update ac source' (items s)"
  from assms src sp obtain dest where dst: "map_of newItems oc = Some dest"
    by (auto simp: moveAcross_def Let_def activeIndex_def newItems_def split: option.splits)
  from assms src sp dst obtain m where m: "movedItem = Some m"
    by (auto simp: moveAcross_def Let_def activeIndex_def newItems_def split: option.splits)
  from assms src sp dst m obtain dest' where
    s': "s' = s\<lparr>items := AList.update oc dest' newItems, activeId := None\<rparr>"
    and d': "mset dest' = add_mset m (mset dest)"
    by (auto simp: moveAcross_def Let_def activeIndex_def newItems_def mset_splice_insert
        split: option.splits if_splits)
  have 1: "add_mset m (all_items newItems) = all_items (items s)"
    unfolding newItems_def
    using src mset_splice_remove[OF sp[unfolded m]] by (rule all_items_update_remove)
  have 2: "all_items (AList.update oc dest' newItems) = add_mset m (all_items newItems)"
    using dst d' by (rule all_items_update_add)
  have k1: "ac \<in> set (map fst (items s))"
    using src by (metis map_of_eq_None_iff option.distinct(1) set_map)
  have k2: "oc \<in> set (map fst newItems)"
    using dst by (metis map_of_eq_None_iff option.distinct(1) set_map)
  have "map fst (AList.update oc dest' newItems) = map fst (items s)"
    using k1 k2 by (simp add: AList.update_keys newItems_def)
  with 1 2 s' show ?thesis by simp
qed

lemma handleDragEnd_items:
  assumes "handleDragEnd event s = Inr s'"
  shows "all_items (items s') = all_items (items s) \<and>
         map fst (items s') = map fst (items s) \<and> set (rows s') = set (rows s)"
proof (cases "over event")
  case None
  with assms show ?thesis by (auto simp: handleDragEnd_def)
next
  case (Some p)
  obtain over_id over_type where p: "p = (over_id, over_type)" by (cases p)
  consider (row) "active_type event = Some ROW \<and> over_type = Some ROW"
    | (image) "\<not> (active_type event = Some ROW \<and> over_type = Some ROW)"
        "active_type event = Some IMAGE"
    | (other) "\<not> (active_type event = Some ROW \<and> over_type = Some ROW)"
        "active_type event \<noteq> Some IMAGE"
    by blast
  then show ?thesis
  proof cases
    case row
    show ?thesis
    proof (cases "active_id event = over_id")
      case True
      with assms Some p row have "s' = s\<lparr>activeId := None\<rparr>"
        by (simp add: handleDragEnd_def)
      then show ?thesis by simp
    next
      case False
      define oldIndex where "oldIndex = findIndex (\<lambda>row. row_id row = active_id event) (rows s)"
      define newIndex where "newIndex = findIndex (\<lambda>row. row_id row = over_id) (rows s)"
      from assms Some p row False
      have "(case arrayMove (rows s) oldIndex newIndex of Inl e \<Rightarrow> Inl e
             | Inr rs \<Rightarrow> Inr (s\<lparr>rows := rs, activeId := None\<rparr>)) = Inr s'"
        by (simp add: handleDragEnd_def Let_def oldIndex_def newIndex_def)
      then obtain rs where am: "arrayMove (rows s) oldIndex newIndex = Inr rs"
        and s': "s' = s\<lparr>rows := rs, activeId := None\<rparr>"
        by (cases "arrayMove (rows s) oldIndex newIndex") auto
      from set_arrayMove[OF am] s' show ?thesis by simp
    qed
  next
    case image
    define ac where "ac = findContainer (rows s) (items s) (active_id event)"
    define oc where "oc = findContainer (rows s) (items s) over_id"
    have "handleDragEnd event s =
        (if \<not> truthy_id ac \<or> \<not> truthy_id oc \<or> ac = oc
         then moveWithin ac (active_id event) over_id s
         else moveAcross (the ac) (the oc) (active_id event) over_id s)"
      using Some p image by (simp add: handleDragEnd_def Let_def ac_def oc_def)
    with assms have "moveWithin ac (active_id event) over_id s = Inr s' \<or>
        moveAcross (the ac) (the oc) (active_id event) over_id s = Inr s'"
      by (simp split: if_splits)
    then show ?thesis
    proof
      assume "moveWithin ac (active_id event) over_id s = Inr s'"
      from moveWithin_items[OF this] show ?thesis by simp
    next
      assume "moveAcross (the ac) (the oc) (active_id event) over_id s = Inr s'"
      from moveAcross_items[OF this] show ?thesis by simp
    qed
  next
    case other
    with assms Some p show ?thesis
      by (auto simp: handleDragEnd_def)
  qed
qed

lemma handleDeleteRow_own:
  assumes "map_of (items s) i = Some xs" and "map_of (items s) UNRANKED_ID = Some us"
  shows "handleDeleteRow i s =
         Inr (s\<lparr>rows := filter (\<lambda>row. row_id row \<noteq> i) (rows s),
                items := AList.delete i (AList.update UNRANKED_ID (us @ xs) (items s))\<rparr>)"
  using assms by (simp add: handleDeleteRow_def get_property_def)

lemma handleDeleteRow_absent:
  assumes "map_of (items s) i = None" and "i \<notin> set Object_prototype"
    and "map_of (items s) UNRANKED_ID = Some us"
  shows "handleDeleteRow i s =
         Inr (s\<lparr>rows := filter (\<lambda>row. row_id row \<noteq> i) (rows s),
                items := AList.delete i (AList.update UNRANKED_ID (us @ []) (items s))\<rparr>)"
  using assms by (simp add: handleDeleteRow_def get_property_def)

lemma handleDeleteRow_inherited:
  assumes "map_of (items s) i = None" and "i \<in> set Object_prototype"
  shows "handleDeleteRow i s = Inl TypeError"
  using assms by (simp add: handleDeleteRow_def get_property_def split: option.splits)

lemma handleDeleteRow_no_bank:
  assumes "map_of (items s) UNRANKED_ID = None"
  shows "handleDeleteRow i s = Inl TypeError"
  using assms by (simp add: handleDeleteRow_def)

lemma handleDeleteRow_Inr:
  assumes "handleDeleteRow i s = Inr s'"
  obtains us xs where "map_of (items s) UNRANKED_ID = Some us"
    and "map_of (items s) i = Some xs \<or> (map_of (items s) i = None \<and> xs = [])"
    and "s' = s\<lparr>rows := filter (\<lambda>row. row_id row \<noteq> i) (rows s),
                 items := AList.delete i (AList.update UNRANKED_ID (us @ xs) (items s))\<rparr>"
proof (cases "map_of (items s) UNRANKED_ID")
  case None
  with assms handleDeleteRow_no_bank[OF None, of i] show ?thesis by simp
next
  case bank: (Some us)
  show ?thesis
  proof (cases "map_of (items s) i")
    case own: (Some xs)
    from handleDeleteRow_own[OF own bank] assms
    have "s' = s\<lparr>rows := filter (\<lambda>row. row_id row \<noteq> i) (rows s),
                 items := AList.delete i (AList.update UNRANKED_ID (us @ xs) (items s))\<rparr>"
      by simp
    with bank own show ?thesis by (intro that[of us xs]) simp_all
  next
    case None
    show ?thesis
    proof (cases "i \<in> set Object_prototype")
      case True
      with assms handleDeleteRow_inherited[OF None True] show ?thesis by simp
    next
      case False
      from handleDeleteRow_absent[OF None False bank] assms
      have "s' = s\<lparr>rows := filter (\<lambda>row. row_id row \<noteq> i) (rows s),
                   items := AList.delete i (AList.update UNRANKED_ID (us @ []) (items s))\<rparr>"
        by simp
      with bank None show ?thesis by (intro that[of us "[]"]) simp_all
    qed
  qed
qed

lemma step_items:
  assumes d: "distinct (map fst (items s))" and st: "apply_mutation m s = Inr s'"
    and fresh: "\<And>uuid. m = AddRow uuid \<Longrightarrow> ''new-row-'' @ uuid \<notin> set (map fst (items s))"
    and nb: "m \<noteq> DeleteRow UNRANKED_ID"
  shows "distinct (map fst (items s')) \<and>
         all_items (items s') = all_items (items s) + mset (imported [m])"
proof (cases m)
  case (AddRow uuid)
  with d st fresh[OF AddRow] show ?thesis
    by (auto simp: handleAddRow_def Let_def all_items_update_new AList.distinct_update)
next
  case (UpdateRow i l c)
  with d st show ?thesis by (auto simp: handleUpdateRow_def)
next
  case (DeleteRow i)
  with nb have ne: "i \<noteq> UNRANKED_ID" by simp
  from st DeleteRow have "handleDeleteRow i s = Inr s'" by simp
  then obtain unranked itemsToMove where u: "map_of (items s) UNRANKED_ID = Some unranked"
    and mv: "map_of (items s) i = Some itemsToMove \<or>
             (map_of (items s) i = None \<and> itemsToMove = [])"
    and s'': "s' = s\<lparr>rows := filter (\<lambda>row. row_id row \<noteq> i) (rows s),
                  items := AList.delete i
                    (AList.update UNRANKED_ID (unranked @ itemsToMove) (items s))\<rparr>"
    by (rule handleDeleteRow_Inr)
  define its1 where "its1 = AList.update UNRANKED_ID (unranked @ itemsToMove) (items s)"
  have s': "items s' = AList.delete i its1"
    using s'' by (simp add: its1_def)
  have d1: "distinct (map fst its1)"
    unfolding its1_def using d by (rule AList.distinct_update)
  have a1: "all_items its1 = all_items (items s) + mset itemsToMove"
    using all_items_update_old[OF u, of "unranked @ itemsToMove"] by (simp add: its1_def)
  have look: "map_of its1 i = map_of (items s) i"
    using ne by (simp add: its1_def AList.update_conv')
  from mv have "all_items (AList.delete i its1) + mset itemsToMove = all_items its1"
  proof
    assume "map_of (items s) i = Some itemsToMove"
    then show ?thesis
      using look all_items_delete_present[OF d1, of i itemsToMove] by simp
  next
    assume "map_of (items s) i = None \<and> itemsToMove = []"
    then show ?thesis using look by (simp add: all_items_delete_absent)
  qed
  with a1 have "all_items (AList.delete i its1) = all_items (items s)" by simp
  then show ?thesis using s' d1 DeleteRow by (simp add: AList.distinct_delete)
next
  case (ImportImages imgs)
  with st obtain unranked where u: "map_of (items s) UNRANKED_ID = Some unranked"
    and s': "s' = s\<lparr>items := AList.update UNRANKED_ID (unranked @ imgs) (items s)\<rparr>"
    by (auto simp: handleImageUpload_def split: option.splits)
  have "all_items (AList.update UNRANKED_ID (unranked @ imgs) (items s)) =
        all_items (items s) + mset imgs"
    using all_items_update_old[OF u, of "unranked @ imgs"] by simp
  then show ?thesis using s' d ImportImages by (simp add: AList.distinct_update)
next
  case (DragStart i)
  with d st show ?thesis by (auto simp: handleDragStart_def)
next
  case (DragEnd event)
  with d st handleDragEnd_items[of event s s'] show ?thesis by simp
qed

lemma imported_Cons: "imported (m # ms) = imported [m] @ imported ms"
  by (cases m) simp_all

lemma findIndexFrom_position:
  "findIndexFrom P k xs =
     (if list_ex P xs then k + int (position_spec P xs) else -1)"
  by (induction xs arbitrary: k) (auto simp: position_spec_def)

lemma findIndex_position:
  "findIndex P xs = (if list_ex P xs then int (position_spec P xs) else -1)"
  by (simp add: findIndex_def findIndexFrom_position)

lemma position_less: "list_ex P xs \<Longrightarrow> position_spec P xs < length xs"
  by (induction xs) (auto simp: position_spec_def)

lemma position_nth: "list_ex P xs \<Longrightarrow> P (xs ! position_spec P xs)"
  by (induction xs) (auto simp: position_spec_def)

lemma splice_start_nat: "k \<le> n \<Longrightarrow> splice_start (int k) n = k"
  by (simp add: splice_start_def)

lemma splice_remove_at:
  "k < length xs \<Longrightarrow>
   splice_remove xs (int k) = (Some (xs ! k), take k xs @ drop (Suc k) xs)"
  by (simp add: splice_remove_def splice_start_nat)

lemma splice_insert_at:
  "k \<le> length xs \<Longrightarrow> splice_insert xs (int k) x = take k xs @ x # drop k xs"
  by (simp add: splice_insert_def splice_start_nat)

lemma arrayMove_reposition:
  "i < length xs \<Longrightarrow> j < length xs \<Longrightarrow>
   arrayMove xs (int i) (int j) = Inr (reposition_spec xs i j)"
  by (simp add: arrayMove_def splice_remove_at splice_insert_at reposition_spec_def Let_def)

lemma reposition_same: "i < length xs \<Longrightarrow> reposition_spec xs i i = xs"
  by (simp add: reposition_spec_def Let_def id_take_nth_drop[symmetric])

lemma reposition_length: "i < length xs \<Longrightarrow> j < length xs \<Longrightarrow> length (reposition_spec xs i j) = length xs"
  by (auto simp: reposition_spec_def Let_def)

lemma reposition_nth: "i < length xs \<Longrightarrow> j < length xs \<Longrightarrow> reposition_spec xs i j ! j = xs ! i"
  by (auto simp: reposition_spec_def Let_def nth_append)

lemma insert_then_remove:
  "j \<le> length r \<Longrightarrow>
   take j (take j r @ x # drop j r) @ drop (Suc j) (take j r @ x # drop j r) = r"
  by (simp add: min_absorb2)

lemma reposition_rest:
  assumes "i < length xs" and "j < length xs"
  shows "take j (reposition_spec xs i j) @ drop (Suc j) (reposition_spec xs i j) =
         take i xs @ drop (Suc i) xs"
proof -
  have "j \<le> length (take i xs @ drop (Suc i) xs)" using assms by simp
  from insert_then_remove[OF this] show ?thesis
    by (simp only: reposition_spec_def Let_def)
qed

lemma remove_item_position:
  "list_ex (\<lambda>x. image_id x = a) xs \<Longrightarrow>
   take (position_spec (\<lambda>x. image_id x = a) xs) xs
     @ drop (Suc (position_spec (\<lambda>x. image_id x = a) xs)) xs = remove_item_spec a xs"
  by (induction xs) (auto simp: position_spec_def)

lemma insert_before_position:
  "list_ex (\<lambda>x. image_id x = ov) ys \<Longrightarrow>
   take (position_spec (\<lambda>x. image_id x = ov) ys) ys
     @ m # drop (position_spec (\<lambda>x. image_id x = ov) ys) ys = insert_before_spec ov m ys"
  by (induction ys) (auto simp: position_spec_def)

lemma find_position:
  "find P xs = Some m \<Longrightarrow> list_ex P xs \<and> xs ! position_spec P xs = m"
  by (induction xs) (auto simp: position_spec_def split: if_splits)

lemma scanContainers_update_other:
  "scanContainers its ov = Some oc \<Longrightarrow> oc \<noteq> sc \<Longrightarrow> map_of its sc = Some xs \<Longrightarrow>
   set xs' \<subseteq> set xs \<Longrightarrow> scanContainers (AList.update sc xs' its) ov = Some oc"
proof (induction its)
  case Nil
  then show ?case by simp
next
  case (Cons p its)
  obtain k v where p: "p = (k, v)" by (cases p)
  show ?case
  proof (cases "k = sc")
    case True
    with Cons.prems p have v: "v = xs" by simp
    from Cons.prems(1,2) p True have no: "\<not> list_ex (\<lambda>item. image_id item = ov) v"
      by (auto split: if_splits)
    with v Cons.prems(4) have "\<not> list_ex (\<lambda>item. image_id item = ov) xs'"
      by (auto simp: list_ex_iff)
    with Cons.prems(1) p True no show ?thesis by simp
  next
    case False
    with Cons p show ?thesis by (auto split: if_splits)
  qed
qed

lemma scanContainers_holds:
  "scanContainers its i = Some c \<Longrightarrow> \<exists>xs. (c, xs) \<in> set its \<and> list_ex (\<lambda>item. image_id item = i) xs"
  by (induction its) (auto split: if_splits)

lemma set_remove_item: "set (remove_item_spec a xs) \<subseteq> set xs"
  by (induction xs) auto

lemma insert_before_absent:
  "\<not> list_ex (\<lambda>x. image_id x = ov) ys \<Longrightarrow> insert_before_spec ov m ys = ys @ [m]"
  by (induction ys) auto

lemma findContainer_update_other:
  assumes "findContainer rs its ov = Some oc" and "oc \<noteq> sc" and "map_of its sc = Some xs"
    and "set xs' \<subseteq> set xs"
  shows "findContainer rs (AList.update sc xs' its) ov = Some oc"
  using assms
  by (auto simp: findContainer_def split: if_splits intro: scanContainers_update_other)

lemma splice_remove_item:
  assumes "find (\<lambda>x. image_id x = a) xs = Some m"
  shows "splice_remove xs (findIndex (\<lambda>item. image_id item = a) xs)
           = (Some m, remove_item_spec a xs)"
proof -
  from find_position[OF assms] have ex: "list_ex (\<lambda>x. image_id x = a) xs"
    and nth: "xs ! position_spec (\<lambda>x. image_id x = a) xs = m" by auto
  show ?thesis
    using ex nth position_less[OF ex] remove_item_position[OF ex]
    by (simp add: findIndex_position splice_remove_at)
qed

lemma splice_insert_before:
  "findIndex (\<lambda>item. image_id item = ov) ys \<noteq> -1 \<Longrightarrow>
   splice_insert ys (findIndex (\<lambda>item. image_id item = ov) ys) m = insert_before_spec ov m ys"
proof -
  assume "findIndex (\<lambda>item. image_id item = ov) ys \<noteq> -1"
  then have ex: "list_ex (\<lambda>x. image_id x = ov) ys"
    by (auto simp: findIndex_position split: if_splits)
  show ?thesis
    using ex position_less[OF ex] insert_before_position[OF ex]
    by (simp add: findIndex_position splice_insert_at)
qed

lemma findIndex_absent:
  "findIndex P ys = -1 \<Longrightarrow> \<not> list_ex P ys"
  by (auto simp: findIndex_position split: if_splits)

lemma moveAcross_result:
  assumes src: "map_of (items s) sc = Some xs"
    and m: "find (\<lambda>x. image_id x = a) xs = Some m"
    and dst: "map_of (items s) oc = Some ys"
    and ne: "sc \<noteq> oc"
    and fc: "findContainer (rows s) (items s) ov = Some oc"
  shows "moveAcross sc oc a ov s =
         Inr (s\<lparr>items := AList.update oc
                            (if ov = oc then ys @ [m] else insert_before_spec ov m ys)
                            (AList.update sc (remove_item_spec a xs) (items s)),
                activeId := None\<rparr>)"
proof -
  define newItems where "newItems = AList.update sc (remove_item_spec a xs) (items s)"
  have post: "findContainer (rows s) newItems ov = Some oc"
    unfolding newItems_def
    using fc ne[symmetric] src set_remove_item by (rule findContainer_update_other)
  have dst': "map_of newItems oc = Some ys"
    using dst ne by (simp add: newItems_def AList.update_conv')
  have cont: "(findContainer (rows s) newItems ov = Some ov) = (ov = oc)"
    using post by auto
  show ?thesis
    unfolding moveAcross_def
    using src splice_remove_item[OF m] dst' cont
    by (auto simp: Let_def newItems_def[symmetric] splice_insert_before insert_before_absent
        dest!: findIndex_absent)
qed

lemma moveWithin_result:
  assumes c: "c \<noteq> []" and ov: "ov \<noteq> []" and xs: "map_of (items s) c = Some xs"
    and ea: "list_ex (\<lambda>x. image_id x = a) xs" and eo: "list_ex (\<lambda>x. image_id x = ov) xs"
  shows "moveWithin (Some c) a ov s =
         Inr (s\<lparr>items := AList.update c
                   (reposition_spec xs (position_spec (\<lambda>x. image_id x = a) xs)
                      (position_spec (\<lambda>x. image_id x = ov) xs)) (items s),
                activeId := None\<rparr>)"
proof -
  define i where "i = position_spec (\<lambda>x. image_id x = a) xs"
  define j where "j = position_spec (\<lambda>x. image_id x = ov) xs"
  have i: "i < length xs" and j: "j < length xs"
    using position_less[OF ea] position_less[OF eo] by (simp_all add: i_def j_def)
  have fi: "findIndex (\<lambda>item. image_id item = a) xs = int i"
    and fj: "findIndex (\<lambda>item. image_id item = ov) xs = int j"
    using ea eo by (simp_all add: findIndex_position i_def j_def)
  show ?thesis
  proof (cases "i = j")
    case True
    have "AList.update c (reposition_spec xs i j) (items s) = items s"
      using True i xs by (simp add: reposition_same AList.update_triv)
    then show ?thesis
      using True c ov xs fi fj by (simp add: moveWithin_def truthy_id_def i_def[symmetric] j_def[symmetric])
  next
    case False
    then show ?thesis
      using c ov xs fi fj arrayMove_reposition[OF i j]
      by (simp add: moveWithin_def truthy_id_def i_def[symmetric] j_def[symmetric])
  qed
qed

lemma delete_absent: "map_of its k = None \<Longrightarrow> AList.delete k its = its"
  by (induction its) (auto split: if_splits)

lemma row_of_json_row_json: "row_of_json (row_json r) = Some r"
  by (simp add: row_of_json_def row_json_def)

lemma image_of_json_image_json: "image_of_json (image_json i) = Some i"
  by (simp add: image_of_json_def image_json_def)

lemma those_map_Some: "(\<And>x. f x = Some x) \<Longrightarrow> those (map f xs) = Some xs"
  by (induction xs) simp_all

lemma rows_of_json_rows_json: "rows_of_json (rows_json rs) = Some rs"
  by (simp add: rows_of_json_def rows_json_def those_map_Some row_of_json_row_json)

lemma container_of_json_ok:
  "container_of_json (case kv of (k, xs) \<Rightarrow> (k, JArr (map image_json xs))) = Some kv"
  by (cases kv) (simp add: container_of_json_def those_map_Some image_of_json_image_json)

lemma items_of_json_items_json: "items_of_json (items_json its) = Some its"
  by (simp add: items_of_json_def items_json_def those_map_Some container_of_json_ok)

lemma row_of_json_exact: "row_of_json j = Some r \<Longrightarrow> row_json r = j"
  by (auto simp: row_of_json_def split: json.splits option.splits if_splits)

lemma image_of_json_exact: "image_of_json j = Some i \<Longrightarrow> image_json i = j"
  by (auto simp: image_of_json_def split: json.splits option.splits if_splits)

lemma those_map_exact:
  "(\<And>x y. f x = Some y \<Longrightarrow> g y = x) \<Longrightarrow> those (map f xs) = Some ys \<Longrightarrow> map g ys = xs"
  by (induction xs arbitrary: ys) (auto split: option.splits)

lemma rows_of_json_exact: "rows_of_json j = Some rs \<Longrightarrow> rows_json rs = j"
  by (auto simp: rows_of_json_def rows_json_def split: json.splits
      intro: those_map_exact[of row_of_json row_json] row_of_json_exact)

lemma container_of_json_exact:
  "container_of_json kv = Some c \<Longrightarrow> (case c of (k, xs) \<Rightarrow> (k, JArr (map image_json xs))) = kv"
  by (cases kv)
    (auto simp: container_of_json_def split: json.splits
      intro: those_map_exact[of image_of_json image_json] image_of_json_exact)

lemma items_of_json_exact: "items_of_json j = Some its \<Longrightarrow> items_json its = j"
  by (auto simp: items_of_json_def items_json_def split: json.splits
      intro: those_map_exact[of container_of_json] container_of_json_exact)

lemma install_exact:
  "install r i s = Typed s' \<Longrightarrow>
   r = rows_json (rows s') \<and> i = items_json (items s') \<and> s' = s\<lparr>rows := rows s', items := items s'\<rparr>"
  by (auto simp: install_def split: option.splits
      dest: rows_of_json_exact items_of_json_exact)

lemma install_typed:
  "install (rows_json rs) (items_json its) s0 = Typed (s0\<lparr>rows := rs, items := its\<rparr>)"
  by (simp add: install_def rows_of_json_rows_json items_of_json_items_json)

lemma truthy_rows_json: "truthy (rows_json rs)"
  by (simp add: rows_json_def)

lemma truthy_items_json: "truthy (items_json its)"
  by (simp add: items_json_def)

lemma handleDragEnd_rows:
  "handleDragEnd event s = Inr s' \<Longrightarrow> set (rows s') = set (rows s)"
  by (simp add: handleDragEnd_items)

lemma step_rows:
  assumes "UNRANKED_ID \<notin> row_id ` set (rows s)" and "apply_mutation m s = Inr s'"
  shows "UNRANKED_ID \<notin> row_id ` set (rows s')"
proof (cases m)
  case (AddRow uuid)
  with assms show ?thesis by (auto simp: handleAddRow_def Let_def UNRANKED_ID_def)
next
  case (UpdateRow i l c)
  with assms show ?thesis by (auto simp: handleUpdateRow_def split: if_splits)
next
  case (DeleteRow i)
  with assms(2) have "handleDeleteRow i s = Inr s'" by simp
  then have "rows s' = filter (\<lambda>row. row_id row \<noteq> i) (rows s)"
    by (rule handleDeleteRow_Inr) simp
  with assms(1) show ?thesis by auto
next
  case (ImportImages imgs)
  with assms show ?thesis by (auto simp: handleImageUpload_def split: option.splits)
next
  case (DragStart i)
  with assms show ?thesis by (auto simp: handleDragStart_def)
next
  case (DragEnd event)
  with assms handleDragEnd_rows[of event s s'] show ?thesis by simp
qed

lemma map_of_key: "k \<in> fst ` set its \<Longrightarrow> \<exists>v. map_of its k = Some v"
  by (metis map_of_eq_None_iff not_Some_eq)

lemma scanContainers_key: "scanContainers its i = Some c \<Longrightarrow> c \<in> fst ` set its"
  by (induction its) (auto split: if_splits)

lemma findContainer_key:
  assumes "store_covers_registry s" and "findContainer (rows s) (items s) i = Some c"
  shows "c \<in> fst ` set (items s)"
proof (cases "i = UNRANKED_ID \<or> list_ex (\<lambda>r. row_id r = i) (rows s)")
  case True
  with assms(2) have "c = i" by (simp add: findContainer_def)
  with True assms(1) show ?thesis
    unfolding store_covers_registry_def list_ex_iff by blast
next
  case False
  with assms(2) have "scanContainers (items s) i = Some c" by (simp add: findContainer_def)
  then show ?thesis by (rule scanContainers_key)
qed

lemma dom_delete: "fst ` set (AList.delete k its) = fst ` set its - {k}"
  by (induction its) (auto simp: AList.delete_eq)

lemma row_ids_update:
  "map row_id (map (\<lambda>row. if row_id row = i then row\<lparr>label := l, color := c\<rparr> else row) rs)
     = map row_id rs"
  by (induction rs) auto

lemma step_covers:
  assumes c: "store_covers_registry s" and nb: "m \<noteq> DeleteRow UNRANKED_ID"
    and st: "apply_mutation m s = Inr s'"
  shows "store_covers_registry s'"
proof (cases m)
  case (AddRow uuid)
  define newId where "newId = ''new-row-'' @ uuid"
  from AddRow st have "rows s' = rows s @ [\<lparr>row_id = newId, label = ''New Tier'', color = ''#4a4a4a''\<rparr>]"
    and "items s' = AList.update newId [] (items s)"
    by (auto simp: handleAddRow_def Let_def newId_def)
  then have "row_id ` set (rows s') = insert newId (row_id ` set (rows s))"
    and "fst ` set (items s') = insert newId (fst ` set (items s))"
    by (simp_all add: AList.dom_update)
  with c show ?thesis unfolding store_covers_registry_def by auto
next
  case (UpdateRow i l c')
  with st have "map row_id (rows s') = map row_id (rows s)" and i: "items s' = items s"
    by (auto simp: handleUpdateRow_def row_ids_update)
  then have "row_id ` set (rows s') = row_id ` set (rows s)" by (metis set_map)
  with c i show ?thesis unfolding store_covers_registry_def by auto
next
  case (DeleteRow i)
  with nb have ne: "i \<noteq> UNRANKED_ID" by simp
  from DeleteRow st have "handleDeleteRow i s = Inr s'" by simp
  then obtain v where "rows s' = filter (\<lambda>row. row_id row \<noteq> i) (rows s)"
    and "items s' = AList.delete i (AList.update UNRANKED_ID v (items s))"
    by (rule handleDeleteRow_Inr) simp
  then have "row_id ` set (rows s') = row_id ` set (rows s) - {i}"
    and "fst ` set (items s') = insert UNRANKED_ID (fst ` set (items s)) - {i}"
    by (auto simp: dom_delete AList.dom_update)
  with c ne show ?thesis unfolding store_covers_registry_def by auto
next
  case (ImportImages imgs)
  with st obtain v where "rows s' = rows s"
    and "items s' = AList.update UNRANKED_ID v (items s)"
    by (auto simp: handleImageUpload_def split: option.splits)
  then have "fst ` set (items s') = insert UNRANKED_ID (fst ` set (items s))"
    and "rows s' = rows s"
    by (simp_all add: AList.dom_update)
  with c show ?thesis unfolding store_covers_registry_def by auto
next
  case (DragStart i)
  with st have "rows s' = rows s" and "items s' = items s"
    by (auto simp: handleDragStart_def)
  with c show ?thesis by (simp add: store_covers_registry_def)
next
  case (DragEnd event)
  with st have h: "handleDragEnd event s = Inr s'" by simp
  from handleDragEnd_items[OF h] have "fst ` set (items s') = fst ` set (items s)"
    by (metis set_map)
  with handleDragEnd_rows[OF h] c show ?thesis
    by (simp add: store_covers_registry_def)
qed

lemma arrayMove_in_range: "i < length xs \<Longrightarrow> \<exists>ys. arrayMove xs (int i) t = Inr ys"
  by (simp add: arrayMove_def splice_remove_at Let_def)

lemma moveWithin_total:
  assumes "c = None \<or> the c \<in> fst ` set (items s)"
  shows "\<exists>s'. moveWithin c a ov s = Inr s'"
proof (cases "truthy_id c \<and> ov \<noteq> []")
  case False
  then have "moveWithin c a ov s = Inr (s\<lparr>activeId := None\<rparr>)"
    by (simp only: moveWithin_def if_False)
  then show ?thesis by simp
next
  case True
  then have "c \<noteq> None" by (cases c) (simp_all add: truthy_id_def)
  with assms have "the c \<in> fst ` set (items s)" by simp
  from map_of_key[OF this] obtain xs where xs: "map_of (items s) (the c) = Some xs" ..
  define activeIndex where "activeIndex = findIndex (\<lambda>item. image_id item = a) xs"
  define overIndex where "overIndex = findIndex (\<lambda>item. image_id item = ov) xs"
  show ?thesis
  proof (cases "activeIndex \<noteq> -1 \<and> overIndex \<noteq> -1 \<and> activeIndex \<noteq> overIndex")
    case False
    with True xs show ?thesis
      by (auto simp: moveWithin_def Let_def activeIndex_def overIndex_def)
  next
    case go: True
    then have ex: "list_ex (\<lambda>item. image_id item = a) xs"
      and ai: "activeIndex = int (position_spec (\<lambda>item. image_id item = a) xs)"
      by (auto simp: activeIndex_def findIndex_position split: if_splits)
    from arrayMove_in_range[OF position_less[OF ex], of overIndex] ai
    obtain ys where "arrayMove xs activeIndex overIndex = Inr ys" by auto
    with True xs go show ?thesis
      by (simp add: moveWithin_def Let_def activeIndex_def[symmetric] overIndex_def[symmetric])
  qed
qed

lemma moveAcross_total:
  assumes src: "map_of (items s) ac = Some source"
    and ex: "list_ex (\<lambda>item. image_id item = a) source"
    and oc: "oc \<in> fst ` set (items s)"
  shows "\<exists>s'. moveAcross ac oc a ov s = Inr s'"
proof -
  define k where "k = position_spec (\<lambda>item. image_id item = a) source"
  have fi: "findIndex (\<lambda>item. image_id item = a) source = int k"
    using ex by (simp add: findIndex_position k_def)
  have sp: "splice_remove source (findIndex (\<lambda>item. image_id item = a) source)
              = (Some (source ! k), take k source @ drop (Suc k) source)"
    unfolding fi using position_less[OF ex] by (simp add: splice_remove_at k_def)
  define source' where "source' = take k source @ drop (Suc k) source"
  have "fst ` set (AList.update ac source' (items s)) = {ac} \<union> fst ` set (items s)"
    by (rule AList.dom_update)
  with oc have "oc \<in> fst ` set (AList.update ac source' (items s))" by simp
  from map_of_key[OF this] obtain dest where
    dst: "map_of (AList.update ac source' (items s)) oc = Some dest" ..
  from src sp dst show ?thesis
    by (simp add: moveAcross_def Let_def source'_def)
qed

lemma scanContainers_finds:
  "a \<in> set (image_ids its) \<Longrightarrow> \<exists>c. scanContainers its a = Some c"
proof (induction its)
  case Nil
  then show ?case by (simp add: image_ids_def)
next
  case (Cons p its)
  obtain k xs where p: "p = (k, xs)" by (cases p)
  show ?case
  proof (cases "list_ex (\<lambda>item. image_id item = a) xs")
    case True
    then show ?thesis using p by simp
  next
    case False
    then have "a \<notin> image_id ` set xs" by (auto simp: list_ex_iff)
    with Cons.prems p have "a \<in> set (image_ids its)" by (auto simp: image_ids_def)
    from Cons.IH[OF this] False p show ?thesis by simp
  qed
qed

lemma findContainer_image:
  assumes ok: "board_ok s" and a: "a \<in> set (image_ids (items s))"
  obtains c xs where "findContainer (rows s) (items s) a = Some c"
    and "map_of (items s) c = Some xs" and "list_ex (\<lambda>item. image_id item = a) xs"
proof -
  from ok a have "a \<noteq> UNRANKED_ID" and "a \<notin> row_id ` set (rows s)"
    by (simp_all add: board_ok_def)
  then have "\<not> (a = UNRANKED_ID \<or> list_ex (\<lambda>r. row_id r = a) (rows s))"
    by (auto simp: list_ex_iff)
  then have fc: "findContainer (rows s) (items s) a = scanContainers (items s) a"
    by (simp add: findContainer_def)
  from scanContainers_finds[OF a] obtain c where sc: "scanContainers (items s) a = Some c" ..
  from scanContainers_holds[OF sc] obtain xs where
    m: "(c, xs) \<in> set (items s)" and ex: "list_ex (\<lambda>item. image_id item = a) xs" by blast
  from ok have "distinct (map fst (items s))" by (simp add: board_ok_def)
  from this m have "map_of (items s) c = Some xs" by (rule map_of_is_SomeI)
  with fc sc ex show ?thesis by (intro that[of c xs]) simp_all
qed

lemma handleDragEnd_total:
  assumes ok: "board_ok s" and sup: "supported s (DragEnd event)"
  shows "\<exists>s'. handleDragEnd event s = Inr s'"
proof (cases "over event")
  case None
  then show ?thesis by (simp add: handleDragEnd_def)
next
  case (Some p)
  obtain over_id over_type where p: "p = (over_id, over_type)" by (cases p)
  from ok have cov: "store_covers_registry s" by (simp add: board_ok_def)
  consider (row) "active_type event = Some ROW \<and> over_type = Some ROW"
    | (image) "\<not> (active_type event = Some ROW \<and> over_type = Some ROW)"
        "active_type event = Some IMAGE"
    | (other) "\<not> (active_type event = Some ROW \<and> over_type = Some ROW)"
        "active_type event \<noteq> Some IMAGE"
    by blast
  then show ?thesis
  proof cases
    case row
    show ?thesis
    proof (cases "active_id event = over_id")
      case True
      with Some p row show ?thesis by (simp add: handleDragEnd_def)
    next
      case False
      from sup row have ex: "list_ex (\<lambda>r. row_id r = active_id event) (rows s)" by simp
      define newIndex where "newIndex = findIndex (\<lambda>row. row_id row = over_id) (rows s)"
      from arrayMove_in_range[OF position_less[OF ex], of newIndex]
      obtain rs where "arrayMove (rows s)
          (int (position_spec (\<lambda>r. row_id r = active_id event) (rows s))) newIndex = Inr rs" ..
      with Some p row False ex show ?thesis
        by (simp add: handleDragEnd_def Let_def findIndex_position newIndex_def)
    qed
  next
    case image
    with sup have a: "active_id event \<in> set (image_ids (items s))" by simp
    from findContainer_image[OF ok a] obtain c xs where
      fc: "findContainer (rows s) (items s) (active_id event) = Some c"
      and xs: "map_of (items s) c = Some xs"
      and ex: "list_ex (\<lambda>item. image_id item = active_id event) xs" .
    have ck: "c \<in> fst ` set (items s)"
      using xs by (metis map_of_eq_None_iff option.distinct(1))
    define oc where "oc = findContainer (rows s) (items s) over_id"
    have eq: "handleDragEnd event s =
        (if \<not> truthy_id (Some c) \<or> \<not> truthy_id oc \<or> Some c = oc
         then moveWithin (Some c) (active_id event) over_id s
         else moveAcross c (the oc) (active_id event) over_id s)"
      using Some p image fc by (simp add: handleDragEnd_def Let_def oc_def)
    show ?thesis
    proof (cases "\<not> truthy_id (Some c) \<or> \<not> truthy_id oc \<or> Some c = oc")
      case True
      from moveWithin_total[of "Some c" s "active_id event" over_id] ck
      obtain s' where "moveWithin (Some c) (active_id event) over_id s = Inr s'" by auto
      with eq True show ?thesis by simp
    next
      case False
      then have "truthy_id oc" by simp
      then obtain o' where o': "oc = Some o'" by (cases oc) (simp_all add: truthy_id_def)
      from findContainer_key[OF cov o'[unfolded oc_def]] have "o' \<in> fst ` set (items s)" .
      from moveAcross_total[OF xs ex this, where ov = over_id]
      obtain s' where "moveAcross c o' (active_id event) over_id s = Inr s'" by auto
      with eq False o' show ?thesis by simp
    qed
  next
    case other
    with Some p show ?thesis by (auto simp: handleDragEnd_def)
  qed
qed

lemma step_total:
  assumes ok: "board_ok s" and sup: "supported s m"
  shows "\<exists>s'. apply_mutation m s = Inr s'"
proof (cases m)
  case (DeleteRow i)
  from ok have cov: "store_covers_registry s" by (simp add: board_ok_def)
  then have "UNRANKED_ID \<in> fst ` set (items s)" by (simp add: store_covers_registry_def)
  from map_of_key[OF this] obtain us where us: "map_of (items s) UNRANKED_ID = Some us" ..
  from sup DeleteRow have "i \<in> row_id ` set (rows s)" by (auto simp: list_ex_iff)
  with cov have "i \<in> fst ` set (items s)" unfolding store_covers_registry_def by blast
  from map_of_key[OF this] obtain xs where "map_of (items s) i = Some xs" ..
  from handleDeleteRow_own[OF this us] DeleteRow show ?thesis by simp
next
  case (ImportImages imgs)
  from ok have "UNRANKED_ID \<in> fst ` set (items s)"
    by (simp add: board_ok_def store_covers_registry_def)
  from map_of_key[OF this] obtain us where "map_of (items s) UNRANKED_ID = Some us" ..
  with ImportImages show ?thesis by (simp add: handleImageUpload_def)
next
  case (DragEnd event)
  with handleDragEnd_total[OF ok] sup show ?thesis by simp
qed simp_all

lemma set_image_ids: "set (image_ids its) = image_id ` set_mset (all_items its)"
  by (simp add: image_ids_def all_items_def)

lemma step_row_ids:
  assumes "apply_mutation m s = Inr s'"
  shows "row_id ` set (rows s') \<subseteq>
         row_id ` set (rows s) \<union> (case m of AddRow uuid \<Rightarrow> {''new-row-'' @ uuid} | _ \<Rightarrow> {})"
proof (cases m)
  case (AddRow uuid)
  with assms show ?thesis by (auto simp: handleAddRow_def Let_def)
next
  case (UpdateRow i l c)
  with assms have "map row_id (rows s') = map row_id (rows s)"
    by (auto simp: handleUpdateRow_def row_ids_update)
  then have "row_id ` set (rows s') = row_id ` set (rows s)" by (metis set_map)
  with UpdateRow show ?thesis by simp
next
  case (DeleteRow i)
  with assms have "handleDeleteRow i s = Inr s'" by simp
  then have "rows s' = filter (\<lambda>row. row_id row \<noteq> i) (rows s)"
    by (rule handleDeleteRow_Inr) simp
  with DeleteRow show ?thesis by auto
next
  case (ImportImages imgs)
  with assms have "rows s' = rows s"
    by (auto simp: handleImageUpload_def split: option.splits)
  with ImportImages show ?thesis by simp
next
  case (DragStart i)
  with assms have "rows s' = rows s" by (auto simp: handleDragStart_def)
  with DragStart show ?thesis by simp
next
  case (DragEnd event)
  with assms handleDragEnd_rows[of event s s'] show ?thesis by simp
qed

lemma step_board:
  assumes ok: "board_ok s" and sup: "supported s m" and st: "apply_mutation m s = Inr s'"
  shows "board_ok s' \<and> all_items (items s') = all_items (items s) + mset (imported [m])"
proof -
  from ok have d: "distinct (map fst (items s))" and cov: "store_covers_registry s"
    and nr: "UNRANKED_ID \<notin> row_id ` set (rows s)"
    and im: "\<forall>x \<in> set (image_ids (items s)). x \<noteq> UNRANKED_ID \<and> x \<notin> row_id ` set (rows s)"
    by (simp_all add: board_ok_def)
  have fresh: "''new-row-'' @ uuid \<notin> set (map fst (items s))" if "m = AddRow uuid" for uuid
    using sup that by (simp add: ids_in_use_def)
  have nb: "m \<noteq> DeleteRow UNRANKED_ID"
  proof
    assume "m = DeleteRow UNRANKED_ID"
    with sup have "list_ex (\<lambda>r. row_id r = UNRANKED_ID) (rows s)" by simp
    then obtain r where "r \<in> set (rows s)" and "row_id r = UNRANKED_ID"
      by (auto simp: list_ex_iff)
    then have "UNRANKED_ID \<in> row_id ` set (rows s)" by (metis imageI)
    with nr show False by simp
  qed
  from step_items[OF d st fresh nb]
  have d': "distinct (map fst (items s'))"
    and a': "all_items (items s') = all_items (items s) + mset (imported [m])" by simp_all
  from step_covers[OF cov nb st] have cov': "store_covers_registry s'" .
  from step_rows[OF nr st] have nr': "UNRANKED_ID \<notin> row_id ` set (rows s')" .
  have ids: "set (image_ids (items s')) =
             set (image_ids (items s)) \<union> image_id ` set (imported [m])"
    by (simp add: set_image_ids a' image_Un)
  have im': "x \<noteq> UNRANKED_ID \<and> x \<notin> row_id ` set (rows s')"
    if x: "x \<in> set (image_ids (items s'))" for x
  proof (cases m)
    case (AddRow uuid)
    with x ids have old: "x \<in> set (image_ids (items s))" by simp
    from sup AddRow have "''new-row-'' @ uuid \<notin> set (image_ids (items s))"
      by (simp add: ids_in_use_def)
    with old have "x \<noteq> ''new-row-'' @ uuid" by auto
    with step_row_ids[OF st] AddRow im old show ?thesis by auto
  next
    case (ImportImages imgs)
    from step_row_ids[OF st] ImportImages
    have sub: "row_id ` set (rows s') \<subseteq> row_id ` set (rows s)" by simp
    from x ids ImportImages
    have "x \<in> set (image_ids (items s)) \<or> x \<in> image_id ` set imgs" by simp
    then show ?thesis
    proof
      assume "x \<in> set (image_ids (items s))"
      with im sub show ?thesis by auto
    next
      assume "x \<in> image_id ` set imgs"
      with sup ImportImages have "x \<notin> set (ids_in_use s)"
        by (auto simp: list_all_iff)
      then have "x \<noteq> UNRANKED_ID" and "x \<notin> row_id ` set (rows s)"
        by (simp_all add: ids_in_use_def)
      with sub show ?thesis by auto
    qed
  next
    case (UpdateRow i l c)
    with x ids have old: "x \<in> set (image_ids (items s))" by simp
    with step_row_ids[OF st] UpdateRow im show ?thesis by auto
  next
    case (DeleteRow i)
    with x ids have old: "x \<in> set (image_ids (items s))" by simp
    with step_row_ids[OF st] DeleteRow im show ?thesis by auto
  next
    case (DragStart i)
    with x ids have old: "x \<in> set (image_ids (items s))" by simp
    with step_row_ids[OF st] DragStart im show ?thesis by auto
  next
    case (DragEnd event)
    with x ids have old: "x \<in> set (image_ids (items s))" by simp
    with step_row_ids[OF st] DragEnd im show ?thesis by auto
  qed
  from d' cov' nr' im' a' show ?thesis by (simp add: board_ok_def)
qed

lemma run_board:
  "board_ok s \<Longrightarrow> supported_run s ms \<Longrightarrow>
   \<exists>s'. run s ms = Inr s' \<and> board_ok s' \<and>
        all_items (items s') = all_items (items s) + mset (imported ms)"
proof (induction ms arbitrary: s)
  case Nil
  then show ?case by simp
next
  case (Cons m ms)
  from Cons.prems(2) have sup: "supported s m" by simp
  from step_total[OF Cons.prems(1) sup] obtain s1 where 1: "apply_mutation m s = Inr s1" ..
  from Cons.prems(2) 1 have sr: "supported_run s1 ms" by simp
  from step_board[OF Cons.prems(1) sup 1] have ok1: "board_ok s1"
    and a1: "all_items (items s1) = all_items (items s) + mset (imported [m])" by simp_all
  from Cons.IH[OF ok1 sr] obtain s' where "run s1 ms = Inr s'" and "board_ok s'"
    and "all_items (items s') = all_items (items s1) + mset (imported ms)" by blast
  with 1 a1 show ?case by (subst imported_Cons) simp
qed

lemma board_ok_default: "board_ok DEFAULT_STATE"
  by (simp add: board_ok_def store_covers_registry_def DEFAULT_STATE_def UNRANKED_ID_def
      image_ids_def)

lemmas example_defs = DEFAULT_STATE_def UNRANKED_ID_def img_def tier_def drop_image_def
  drop_row_def example_trace_def example_final_def cross_example_def within_example_def
  delete_example_def orphan_example_def partial_snapshot_def partial_state_def misshaped_snapshot_def

lemmas handler_defs = handleDragEnd_def moveWithin_def moveAcross_def findContainer_def
  findIndex_def splice_remove_def splice_insert_def splice_start_def arrayMove_def
  handleDeleteRow_def handleImageUpload_def handleAddRow_def handleUpdateRow_def
  handleDragStart_def truthy_id_def Let_def position_spec_def reposition_spec_def

lemmas codec_defs = handleUpload_def loadSaved_def handleSave_def handleDownload_def
  install_def rows_of_json_def items_of_json_def row_of_json_def image_of_json_def
  container_of_json_def rows_json_def items_json_def row_json_def image_json_def
  truthy_field_def rendered_items_def


section \<open>The partition is exhaustive\<close>

text \<open>
  C1. Start from the default state and apply any sequence of mutations that the interface
  can ask for (add, update and delete a tier, import images, drop an image or a row
  anywhere or nowhere; see \<open>supported\<close>). Then every handler returns, so the run ends in a
  state, and the multiset union of all container sequences of that state is exactly the
  multiset of the images imported during the run: none is lost, none is duplicated. The
  keys of the store stay distinct, and no row ever carries the id of the bank.
\<close>

theorem exhaustive_partition:
  assumes "supported_run DEFAULT_STATE ms"
  shows "\<exists>s. run DEFAULT_STATE ms = Inr s \<and>
             all_items (items s) = mset (imported ms) \<and>
             distinct (map fst (items s)) \<and>
             UNRANKED_ID \<notin> row_id ` set (rows s)"
proof -
  have e: "all_items (items DEFAULT_STATE) = {#}"
    by (simp add: DEFAULT_STATE_def all_items_def)
  from run_board[OF board_ok_default assms] obtain s where
    "run DEFAULT_STATE ms = Inr s" and "board_ok s"
    and "all_items (items s) = all_items (items DEFAULT_STATE) + mset (imported ms)"
    by blast
  with e show ?thesis by (auto simp: board_ok_def)
qed

theorem exhaustive_partition_witness:
  "supported_run DEFAULT_STATE example_trace \<and>
   run DEFAULT_STATE example_trace = Inr example_final \<and>
   all_items (items example_final) = {#img ''a'', img ''b'', img ''c''#}"
proof -
  have 1: "supported_run DEFAULT_STATE example_trace"
    by (simp add: example_defs handler_defs get_property_def Object_prototype_def
        ids_in_use_def image_ids_def)
  have 2: "run DEFAULT_STATE example_trace = Inr example_final"
    by (simp add: example_defs handler_defs get_property_def Object_prototype_def)
  have 3: "imported example_trace = [img ''a'', img ''b'', img ''c'']"
    by (simp add: example_trace_def)
  from exhaustive_partition[OF 1] 2
  have "all_items (items example_final) = mset (imported example_trace)" by auto
  with 1 2 3 show ?thesis by simp
qed


section \<open>Deleting a tier\<close>

text \<open>
  C2, as the code has it. In a state whose store holds the bank, deleting an id that is
  neither the id of a row, nor a key of the store, nor the name of a property that every
  object inherits (\<open>Object_prototype\<close>) changes nothing: the registry and the store are the
  ones before.
\<close>

theorem delete_unknown_noop:
  assumes us: "map_of (items s) UNRANKED_ID = Some us"
    and nr: "\<not> list_ex (\<lambda>r. row_id r = i) (rows s)"
    and nk: "map_of (items s) i = None"
    and np: "i \<notin> set Object_prototype"
  shows "handleDeleteRow i s = Inr s"
proof -
  have "filter (\<lambda>row. row_id row \<noteq> i) (rows s) = rows s"
    using nr by (simp add: list_ex_iff)
  then show ?thesis
    using us nk handleDeleteRow_absent[OF nk np us]
    by (simp add: AList.update_triv delete_absent)
qed

theorem delete_unknown_noop_witness:
  "map_of (items delete_example) UNRANKED_ID = Some [img ''x'', img ''y''] \<and>
   \<not> list_ex (\<lambda>r. row_id r = ''Z'') (rows delete_example) \<and>
   map_of (items delete_example) ''Z'' = None \<and>
   ''Z'' \<notin> set Object_prototype \<and>
   handleDeleteRow ''Z'' delete_example = Inr delete_example"
proof -
  have 1: "map_of (items delete_example) UNRANKED_ID = Some [img ''x'', img ''y'']"
    and 2: "\<not> list_ex (\<lambda>r. row_id r = ''Z'') (rows delete_example)"
    and 3: "map_of (items delete_example) ''Z'' = None"
    and 4: "''Z'' \<notin> set Object_prototype"
    by (simp_all add: example_defs Object_prototype_def)
  from delete_unknown_noop[OF 1 2 3 4] 1 2 3 4 show ?thesis by simp
qed

text \<open>
  C2 as stated fails for the reserved id: deleting \<open>UNRANKED_ID\<close> is no silent no-op, the
  bank leaves the store together with the images in it. It fails for an id that is no row
  but still a key of the store: that container is emptied into the bank and removed. And
  it fails for an id that is neither, but names an inherited property: the handler raises.
\<close>

theorem delete_unranked_counterexample:
  "handleDeleteRow UNRANKED_ID delete_example =
     Inr (delete_example\<lparr>items := [(''T'', [img ''a'', img ''b'', img ''c'']),
                                   (''K'', [img ''k''])]\<rparr>) \<and>
   handleDeleteRow UNRANKED_ID delete_example \<noteq> Inr delete_example \<and>
   \<not> list_ex (\<lambda>r. row_id r = ''Z'') (rows orphan_example) \<and>
   handleDeleteRow ''Z'' orphan_example =
     Inr (orphan_example\<lparr>items := [(''K'', [img ''k'']),
                                   (''unranked'', [img ''x'', img ''a''])]\<rparr>) \<and>
   handleDeleteRow ''Z'' orphan_example \<noteq> Inr orphan_example \<and>
   \<not> list_ex (\<lambda>r. row_id r = ''constructor'') (rows delete_example) \<and>
   map_of (items delete_example) ''constructor'' = None \<and>
   handleDeleteRow ''constructor'' delete_example = Inl TypeError"
  by (simp add: example_defs handleDeleteRow_def get_property_def Object_prototype_def)


section \<open>A snapshot without the bank\<close>

text \<open>
  C3. The snapshot \<open>partial_snapshot\<close> has one row and no key for the bank. It loads.
  The render then shows the bank as empty, but importing an image and deleting the row
  both end in a \<open>TypeError\<close>, and so does a drop on the bank.
\<close>

theorem missing_bank_fails:
  "handleUpload (Text (Some partial_snapshot)) DEFAULT_STATE = (BackupLoaded, Typed partial_state) \<and>
   rendered_items partial_state UNRANKED_ID = Inr [] \<and>
   handleImageUpload (Some [img ''b'']) partial_state = Inl TypeError \<and>
   handleDeleteRow ''S'' partial_state = Inl TypeError \<and>
   handleDragEnd (drop_image ''a'' UNRANKED_ID ROW) partial_state = Inl TypeError"
  by (simp add: example_defs codec_defs handler_defs get_property_def Object_prototype_def)

theorem missing_bank_fails_witness:
  "handleImageUpload (Some [img ''b'']) partial_state = Inl TypeError"
  by (rule missing_bank_fails[THEN conjunct2, THEN conjunct2, THEN conjunct1])


section \<open>Loading a document\<close>

text \<open>
  C4, as the code has it. The upload is refused exactly when the reader gave no text, the
  text did not parse, or the parsed value or one of its fields \<^verbatim>\<open>savedRows\<close> and
  \<^verbatim>\<open>savedItems\<close> is falsy (\<^verbatim>\<open>undefined\<close>, \<^verbatim>\<open>null\<close>, \<^verbatim>\<open>false\<close>, \<open>0\<close>, the empty string). A refused
  upload leaves the state as it was. In particular a missing field is refused. The shape
  of a field that is present and truthy is not looked at.
\<close>

theorem upload_rejects:
  "(fst (handleUpload result s) = AlertFailed \<longleftrightarrow>
      (\<forall>data. result = Text (Some data) \<longrightarrow>
         \<not> (truthy data \<and> truthy_field data ''savedRows'' \<and> truthy_field data ''savedItems''))) \<and>
   (fst (handleUpload result s) = AlertFailed \<longrightarrow> snd (handleUpload result s) = Typed s) \<and>
   (get_field data ''savedRows'' = None \<or> get_field data ''savedItems'' = None \<longrightarrow>
      handleUpload (Text (Some data)) s = (AlertFailed, Typed s))"
  by (auto simp: handleUpload_def truthy_field_def split: reader_result.splits option.splits)

theorem upload_rejects_witness:
  "get_field (JObj [(''savedRows'', JArr [])]) ''savedItems'' = None \<and>
   fst (handleUpload (Text (Some (JObj [(''savedRows'', JArr [])]))) cross_example) = AlertFailed \<and>
   snd (handleUpload (Text (Some (JObj [(''savedRows'', JArr [])]))) cross_example)
     = Typed cross_example"
  using upload_rejects[of "Text (Some (JObj [(''savedRows'', JArr [])]))" cross_example
      "JObj [(''savedRows'', JArr [])]"]
  by simp

text \<open>
  C4 as stated fails: a document whose fields have the wrong shape is accepted, and its
  values replace the state.
\<close>

theorem misshaped_accepted_counterexample:
  "rows_of_json (JStr ''wrong'') = None \<and> items_of_json (JNum 7) = None \<and>
   handleUpload (Text (Some misshaped_snapshot)) cross_example
     = (BackupLoaded, Untyped (JStr ''wrong'') (JNum 7))"
  by (simp add: example_defs codec_defs)


section \<open>Moving an image to another container\<close>

text \<open>
  C5. An image is dropped on something that resolves to another container than its own
  (ids of containers are not empty). Then the source sequence loses exactly this image,
  the others keeping their order. If the drop is on the destination container itself, the
  image goes to the end of the destination; if it is on an image of the destination, it
  is inserted immediately before that image. No other container and no row changes.
\<close>

theorem cross_container_move:
  assumes ty: "active_type event = Some IMAGE"
    and ov: "over event = Some (ov, oty)"
    and ac: "findContainer (rows s) (items s) (active_id event) = Some sc"
    and oc: "findContainer (rows s) (items s) ov = Some oc"
    and ne: "sc \<noteq> oc" and sc: "sc \<noteq> []" and oc': "oc \<noteq> []"
    and src: "map_of (items s) sc = Some xs"
    and m: "find (\<lambda>x. image_id x = active_id event) xs = Some m"
    and dst: "map_of (items s) oc = Some ys"
  shows "\<exists>s'. handleDragEnd event s = Inr s' \<and> rows s' = rows s \<and>
           map_of (items s') sc = Some (remove_item_spec (active_id event) xs) \<and>
           map_of (items s') oc =
             Some (if ov = oc then ys @ [m] else insert_before_spec ov m ys) \<and>
           (\<forall>k. k \<noteq> sc \<and> k \<noteq> oc \<longrightarrow> map_of (items s') k = map_of (items s) k)"
proof -
  have "handleDragEnd event s = moveAcross sc oc (active_id event) ov s"
    using ty ov ac oc ne sc oc' by (simp add: handleDragEnd_def truthy_id_def)
  also note moveAcross_result[OF src m dst ne oc]
  finally show ?thesis using ne by (simp add: AList.update_conv')
qed

theorem cross_container_move_witness:
  "(findContainer (rows cross_example) (items cross_example) ''b'' = Some ''T1'' \<and>
    findContainer (rows cross_example) (items cross_example) ''y'' = Some ''T2'' \<and>
    (\<exists>s'. handleDragEnd (drop_image ''b'' ''y'' IMAGE) cross_example = Inr s' \<and>
       map_of (items s') ''T1'' = Some [img ''a''] \<and>
       map_of (items s') ''T2'' = Some [img ''x'', img ''b'', img ''y''])) \<and>
   (findContainer (rows cross_example) (items cross_example) ''m'' = Some ''unranked'' \<and>
    findContainer (rows cross_example) (items cross_example) ''E'' = Some ''E'' \<and>
    (\<exists>s'. handleDragEnd (drop_image ''m'' ''E'' ROW) cross_example = Inr s' \<and>
       map_of (items s') ''unranked'' = Some [] \<and>
       map_of (items s') ''E'' = Some [img ''m'']))"
proof -
  have a: "findContainer (rows cross_example) (items cross_example) ''b'' = Some ''T1''"
    and b: "findContainer (rows cross_example) (items cross_example) ''y'' = Some ''T2''"
    and c: "findContainer (rows cross_example) (items cross_example) ''m'' = Some ''unranked''"
    and d: "findContainer (rows cross_example) (items cross_example) ''E'' = Some ''E''"
    by (simp_all add: example_defs findContainer_def)
  have ty: "active_type (drop_image a ov t) = Some IMAGE"
    and ov: "over (drop_image a ov t) = Some (ov, Some t)"
    and act: "active_id (drop_image a ov t) = a" for a ov t
    by (simp_all add: drop_image_def)
  have t1: "map_of (items cross_example) ''T1'' = Some [img ''a'', img ''b'']"
    and t2: "map_of (items cross_example) ''T2'' = Some [img ''x'', img ''y'']"
    and un: "map_of (items cross_example) ''unranked'' = Some [img ''m'']"
    and em: "map_of (items cross_example) ''E'' = Some []"
    by (simp_all add: cross_example_def)
  have fb: "find (\<lambda>x. image_id x = active_id (drop_image ''b'' ''y'' IMAGE))
              [img ''a'', img ''b''] = Some (img ''b'')"
    and fm: "find (\<lambda>x. image_id x = active_id (drop_image ''m'' ''E'' ROW))
              [img ''m''] = Some (img ''m'')"
    by (simp_all add: act img_def)
  have a': "findContainer (rows cross_example) (items cross_example)
              (active_id (drop_image ''b'' ''y'' IMAGE)) = Some ''T1''"
    and c': "findContainer (rows cross_example) (items cross_example)
              (active_id (drop_image ''m'' ''E'' ROW)) = Some ''unranked''"
    using a c by (simp_all add: act)
  from cross_container_move[OF ty ov a' b _ _ _ t1 fb t2]
  obtain s1 where
    s1: "handleDragEnd (drop_image ''b'' ''y'' IMAGE) cross_example = Inr s1"
      "map_of (items s1) ''T1'' =
         Some (remove_item_spec (active_id (drop_image ''b'' ''y'' IMAGE)) [img ''a'', img ''b''])"
      "map_of (items s1) ''T2'' =
         Some (if ''y'' = ''T2'' then [img ''x'', img ''y''] @ [img ''b'']
               else insert_before_spec ''y'' (img ''b'') [img ''x'', img ''y''])"
    by auto
  from cross_container_move[OF ty ov c' d _ _ _ un fm em]
  obtain s2 where
    s2: "handleDragEnd (drop_image ''m'' ''E'' ROW) cross_example = Inr s2"
      "map_of (items s2) ''unranked'' =
         Some (remove_item_spec (active_id (drop_image ''m'' ''E'' ROW)) [img ''m''])"
      "map_of (items s2) ''E'' =
         Some (if ''E'' = ''E'' then [] @ [img ''m'']
               else insert_before_spec ''E'' (img ''m'') [])"
    by auto
  from s1(2,3) have 1: "map_of (items s1) ''T1'' = Some [img ''a'']"
    "map_of (items s1) ''T2'' = Some [img ''x'', img ''b'', img ''y'']"
    by (simp_all add: act img_def)
  from s2(2,3) have 2: "map_of (items s2) ''unranked'' = Some []"
    "map_of (items s2) ''E'' = Some [img ''m'']"
    by (simp_all add: act img_def)
  from a b c d s1(1) s2(1) 1 2 show ?thesis by blast
qed


section \<open>Deleting a tier that holds images\<close>

text \<open>
  C6. Deleting a tier \<open>t\<close> (not the bank) whose container holds \<open>ts\<close>, while the bank
  holds \<open>us\<close>, gives a bank that holds \<open>us @ ts\<close>; \<open>t\<close> is no key of the store and no row of
  the registry any more, the other rows keep their order, and every other container is
  as before.
\<close>

theorem tier_delete_migration:
  assumes t: "t \<noteq> UNRANKED_ID"
    and ts: "map_of (items s) t = Some ts"
    and us: "map_of (items s) UNRANKED_ID = Some us"
  shows "\<exists>s'. handleDeleteRow t s = Inr s' \<and>
           map_of (items s') UNRANKED_ID = Some (us @ ts) \<and>
           t \<notin> set (map fst (items s')) \<and>
           rows s' = filter (\<lambda>r. row_id r \<noteq> t) (rows s) \<and>
           t \<notin> set (map row_id (rows s')) \<and>
           (\<forall>k. k \<noteq> t \<and> k \<noteq> UNRANKED_ID \<longrightarrow> map_of (items s') k = map_of (items s) k)"
proof -
  define its' where
    "its' = AList.delete t (AList.update UNRANKED_ID (us @ ts) (items s))"
  have run: "handleDeleteRow t s =
      Inr (s\<lparr>rows := filter (\<lambda>row. row_id row \<noteq> t) (rows s), items := its'\<rparr>)"
    using handleDeleteRow_own[OF ts us] by (simp add: its'_def)
  have "t \<notin> fst ` set its'"
    unfolding its'_def by (rule AList.delete_notin_dom)
  moreover have "map_of its' UNRANKED_ID = Some (us @ ts)"
    using t by (simp add: its'_def AList.delete_conv' AList.update_conv')
  moreover have "\<forall>k. k \<noteq> t \<and> k \<noteq> UNRANKED_ID \<longrightarrow> map_of its' k = map_of (items s) k"
    by (simp add: its'_def AList.delete_conv' AList.update_conv')
  ultimately show ?thesis using run by auto
qed

theorem tier_delete_migration_witness:
  "''T'' \<noteq> UNRANKED_ID \<and>
   map_of (items delete_example) ''T'' = Some [img ''a'', img ''b'', img ''c''] \<and>
   map_of (items delete_example) UNRANKED_ID = Some [img ''x'', img ''y''] \<and>
   (\<exists>s'. handleDeleteRow ''T'' delete_example = Inr s' \<and>
      map_of (items s') UNRANKED_ID
        = Some [img ''x'', img ''y'', img ''a'', img ''b'', img ''c''] \<and>
      ''T'' \<notin> set (map fst (items s')) \<and>
      rows s' = [tier ''K''] \<and>
      map_of (items s') ''K'' = Some [img ''k''])"
proof -
  have 1: "''T'' \<noteq> UNRANKED_ID"
    and 2: "map_of (items delete_example) ''T'' = Some [img ''a'', img ''b'', img ''c'']"
    and 3: "map_of (items delete_example) UNRANKED_ID = Some [img ''x'', img ''y'']"
    by (simp_all add: example_defs)
  from tier_delete_migration[OF 1 2 3] obtain s' where
    s': "handleDeleteRow ''T'' delete_example = Inr s'"
      "map_of (items s') UNRANKED_ID = Some ([img ''x'', img ''y''] @ [img ''a'', img ''b'', img ''c''])"
      "''T'' \<notin> set (map fst (items s'))"
      "rows s' = filter (\<lambda>r. row_id r \<noteq> ''T'') (rows delete_example)"
      "\<forall>k. k \<noteq> ''T'' \<and> k \<noteq> UNRANKED_ID \<longrightarrow> map_of (items s') k = map_of (items delete_example) k"
    by blast
  from s'(4) have r: "rows s' = [tier ''K'']" by (simp add: example_defs)
  from s'(5) have "''K'' \<noteq> ''T'' \<and> ''K'' \<noteq> UNRANKED_ID \<longrightarrow>
      map_of (items s') ''K'' = map_of (items delete_example) ''K''" by (rule spec)
  then have k: "map_of (items s') ''K'' = Some [img ''k'']" by (simp add: example_defs)
  from 1 2 3 s'(1,2,3) r k show ?thesis by auto
qed


section \<open>Repositioning an image in its container\<close>

text \<open>
  C7. An image is dropped on an image of the same container (ids are not empty). Then
  the image at \<open>fromIndex\<close> is removed from the sequence and put back at \<open>toIndex\<close>, the
  index of the image it was dropped on; with equal indices the store is as before; no
  other container and no row changes.
\<close>

theorem within_container_reorder:
  assumes ty: "active_type event = Some IMAGE"
    and ov: "over event = Some (ov, oty)"
    and ac: "findContainer (rows s) (items s) (active_id event) = Some c"
    and oc: "findContainer (rows s) (items s) ov = Some c"
    and c: "c \<noteq> []" and ov': "ov \<noteq> []"
    and xs: "map_of (items s) c = Some xs"
    and i: "list_ex (\<lambda>x. image_id x = active_id event) xs"
      "fromIndex = position_spec (\<lambda>x. image_id x = active_id event) xs"
    and j: "list_ex (\<lambda>x. image_id x = ov) xs"
      "toIndex = position_spec (\<lambda>x. image_id x = ov) xs"
  shows "\<exists>s'. handleDragEnd event s = Inr s' \<and> rows s' = rows s \<and>
           map_of (items s') c = Some (reposition_spec xs fromIndex toIndex) \<and>
           (\<forall>k. k \<noteq> c \<longrightarrow> map_of (items s') k = map_of (items s) k) \<and>
           (fromIndex = toIndex \<longrightarrow> items s' = items s)"
proof -
  have "handleDragEnd event s = moveWithin (Some c) (active_id event) ov s"
    using ty ov ac oc by (simp add: handleDragEnd_def)
  also note moveWithin_result[OF c ov' xs i(1) j(1)]
  finally have 1: "handleDragEnd event s =
      Inr (s\<lparr>items := AList.update c (reposition_spec xs fromIndex toIndex) (items s),
             activeId := None\<rparr>)"
    by (simp add: i(2) j(2))
  have "fromIndex = toIndex \<Longrightarrow>
        AList.update c (reposition_spec xs fromIndex toIndex) (items s) = items s"
    using xs position_less[OF i(1)] by (simp add: i(2) reposition_same AList.update_triv)
  with 1 show ?thesis by (auto simp: AList.update_conv')
qed

theorem within_container_reorder_witness:
  "findContainer (rows within_example) (items within_example) ''b'' = Some ''T'' \<and>
   findContainer (rows within_example) (items within_example) ''d'' = Some ''T'' \<and>
   position_spec (\<lambda>x. image_id x = ''b'') [img ''a'', img ''b'', img ''c'', img ''d''] = 1 \<and>
   position_spec (\<lambda>x. image_id x = ''d'') [img ''a'', img ''b'', img ''c'', img ''d''] = 3 \<and>
   (\<exists>s'. handleDragEnd (drop_image ''b'' ''d'' IMAGE) within_example = Inr s' \<and>
      map_of (items s') ''T'' = Some [img ''a'', img ''c'', img ''d'', img ''b''] \<and>
      map_of (items s') ''K'' = Some [img ''k''])"
proof -
  let ?xs = "[img ''a'', img ''b'', img ''c'', img ''d'']"
  have a: "findContainer (rows within_example) (items within_example) ''b'' = Some ''T''"
    and b: "findContainer (rows within_example) (items within_example) ''d'' = Some ''T''"
    by (simp_all add: example_defs findContainer_def)
  have i: "position_spec (\<lambda>x. image_id x = ''b'') ?xs = 1"
    and j: "position_spec (\<lambda>x. image_id x = ''d'') ?xs = 3"
    by (simp_all add: position_spec_def img_def)
  have xs: "map_of (items within_example) ''T'' = Some ?xs"
    by (simp add: example_defs)
  have ea: "list_ex (\<lambda>x. image_id x = active_id (drop_image ''b'' ''d'' IMAGE)) ?xs"
    and eo: "list_ex (\<lambda>x. image_id x = ''d'') ?xs"
    by (simp_all add: img_def drop_image_def)
  have act: "active_id (drop_image ''b'' ''d'' IMAGE) = ''b''" by (simp add: drop_image_def)
  from within_container_reorder[of "drop_image ''b'' ''d'' IMAGE" "''d''" "Some IMAGE"
      within_example "''T''" ?xs 1 3, OF _ _ _ b _ _ xs ea _ eo]
  obtain s' where
    s': "handleDragEnd (drop_image ''b'' ''d'' IMAGE) within_example = Inr s'"
      "map_of (items s') ''T'' = Some (reposition_spec ?xs 1 3)"
      "\<forall>k. k \<noteq> ''T'' \<longrightarrow> map_of (items s') k = map_of (items within_example) k"
    using a i j by (auto simp: drop_image_def)
  have r: "reposition_spec ?xs 1 3 = [img ''a'', img ''c'', img ''d'', img ''b'']"
    by (simp add: reposition_spec_def)
  from s'(3) have "''K'' \<noteq> ''T'' \<longrightarrow> map_of (items s') ''K'' = map_of (items within_example) ''K''"
    by (rule spec)
  then have k: "map_of (items s') ''K'' = Some [img ''k'']" by (simp add: example_defs)
  from a b i j s'(1,2) r k show ?thesis by auto
qed


section \<open>Reordering the tiers\<close>

text \<open>
  C8. A row is dropped on a row, both in the registry. If their ids differ, the dragged
  row is removed from its index and put at the index that the other row had before the
  move: it is then found at that index, and without it the registry is what the old one
  was without it. If the ids are equal the registry is as before. The store is the same
  in both cases.
\<close>

theorem tier_reorder:
  assumes ty: "active_type event = Some ROW"
    and ov: "over event = Some (ov, Some ROW)"
    and i: "list_ex (\<lambda>r. row_id r = active_id event) (rows s)"
      "oldIndex = position_spec (\<lambda>r. row_id r = active_id event) (rows s)"
    and j: "list_ex (\<lambda>r. row_id r = ov) (rows s)"
      "newIndex = position_spec (\<lambda>r. row_id r = ov) (rows s)"
  shows "\<exists>s'. handleDragEnd event s = Inr s' \<and> items s' = items s \<and>
           rows s' = (if active_id event = ov then rows s
                      else reposition_spec (rows s) oldIndex newIndex) \<and>
           (active_id event \<noteq> ov \<longrightarrow>
              length (rows s') = length (rows s) \<and>
              rows s' ! newIndex = rows s ! oldIndex \<and>
              take newIndex (rows s') @ drop (Suc newIndex) (rows s') =
                take oldIndex (rows s) @ drop (Suc oldIndex) (rows s))"
proof -
  have li: "oldIndex < length (rows s)" and lj: "newIndex < length (rows s)"
    using position_less[OF i(1)] position_less[OF j(1)] by (simp_all add: i(2) j(2))
  have fi: "findIndex (\<lambda>row. row_id row = active_id event) (rows s) = int oldIndex"
    and fj: "findIndex (\<lambda>row. row_id row = ov) (rows s) = int newIndex"
    using i j by (simp_all add: findIndex_position)
  show ?thesis
    using ty ov fi fj arrayMove_reposition[OF li lj]
      reposition_length[OF li lj] reposition_nth[OF li lj] reposition_rest[OF li lj]
    by (simp add: handleDragEnd_def)
qed

theorem tier_reorder_witness:
  "list_ex (\<lambda>r. row_id r = ''S'') (rows DEFAULT_STATE) \<and>
   list_ex (\<lambda>r. row_id r = ''B'') (rows DEFAULT_STATE) \<and>
   position_spec (\<lambda>r. row_id r = ''S'') (rows DEFAULT_STATE) = 0 \<and>
   position_spec (\<lambda>r. row_id r = ''B'') (rows DEFAULT_STATE) = 2 \<and>
   (\<exists>s'. handleDragEnd (drop_row ''S'' ''B'') DEFAULT_STATE = Inr s' \<and>
      items s' = items DEFAULT_STATE \<and>
      map row_id (rows s') = [''A'', ''B'', ''S'', ''C'', ''D''])"
proof -
  have i: "list_ex (\<lambda>r. row_id r = active_id (drop_row ''S'' ''B'')) (rows DEFAULT_STATE)"
    and j: "list_ex (\<lambda>r. row_id r = ''B'') (rows DEFAULT_STATE)"
    and pi: "0 = position_spec (\<lambda>r. row_id r = active_id (drop_row ''S'' ''B'')) (rows DEFAULT_STATE)"
    and pj: "2 = position_spec (\<lambda>r. row_id r = ''B'') (rows DEFAULT_STATE)"
    and ty: "active_type (drop_row ''S'' ''B'') = Some ROW"
    and ov: "over (drop_row ''S'' ''B'') = Some (''B'', Some ROW)"
    by (simp_all add: DEFAULT_STATE_def drop_row_def position_spec_def)
  from tier_reorder[OF ty ov i pi j pj] obtain s' where
    s': "handleDragEnd (drop_row ''S'' ''B'') DEFAULT_STATE = Inr s'"
      "items s' = items DEFAULT_STATE"
      "rows s' = (if active_id (drop_row ''S'' ''B'') = ''B'' then rows DEFAULT_STATE
                  else reposition_spec (rows DEFAULT_STATE) 0 2)"
    by blast
  from s'(3) have r: "map row_id (rows s') = [''A'', ''B'', ''S'', ''C'', ''D'']"
    by (simp add: drop_row_def DEFAULT_STATE_def reposition_spec_def)
  from i j pi pj s'(1,2) r show ?thesis by (auto simp: drop_row_def)
qed


section \<open>Saving and loading again\<close>

text \<open>
  C9. Loading the document that \<^verbatim>\<open>handleSave\<close> or \<^verbatim>\<open>handleDownload\<close> wrote for a state
  gives back the rows and the items of that state: the same ids, labels and colors in the
  same order, the same container keys in the same order, and in each container the same
  images, ids and payloads, in the same order.
\<close>

theorem snapshot_round_trip:
  "loadSaved (Stored (Some (handleSave s))) s0 = Typed (s0\<lparr>rows := rows s, items := items s\<rparr>) \<and>
   handleUpload (Text (Some (handleDownload s))) s0 =
     (BackupLoaded, Typed (s0\<lparr>rows := rows s, items := items s\<rparr>)) \<and>
   rows_of_json (rows_json (rows s)) = Some (rows s) \<and>
   items_of_json (items_json (items s)) = Some (items s)"
  by (simp add: loadSaved_def handleUpload_def handleSave_def handleDownload_def
      truthy_field_def truthy_rows_json truthy_items_json
      install_typed rows_of_json_rows_json items_of_json_items_json)

theorem snapshot_round_trip_witness:
  "loadSaved (Stored (Some (handleSave cross_example))) DEFAULT_STATE
     = Typed (DEFAULT_STATE\<lparr>rows := rows cross_example, items := items cross_example\<rparr>)"
  using snapshot_round_trip[of cross_example DEFAULT_STATE] by simp


section \<open>Dropping an image on its own container\<close>

text \<open>
  C10. An image is dropped on the body of the container \<open>c\<close> (a row or the bank) that
  holds it, and no image in \<open>c\<close> has the id of \<open>c\<close> itself. Then neither the store nor the
  registry changes; only the dragged id is cleared.
\<close>

theorem drop_on_own_container:
  assumes ty: "active_type event = Some IMAGE"
    and ov: "over event = Some (c, oty)"
    and cont: "c = UNRANKED_ID \<or> list_ex (\<lambda>r. row_id r = c) (rows s)"
    and ac: "findContainer (rows s) (items s) (active_id event) = Some c"
    and xs: "map_of (items s) c = Some xs"
    and dis: "\<not> list_ex (\<lambda>x. image_id x = c) xs"
  shows "handleDragEnd event s = Inr (s\<lparr>activeId := None\<rparr>)"
proof -
  have oc: "findContainer (rows s) (items s) c = Some c"
    using cont by (auto simp: findContainer_def)
  have "handleDragEnd event s = moveWithin (Some c) (active_id event) c s"
    using ty ov ac oc by (simp add: handleDragEnd_def)
  also have "\<dots> = Inr (s\<lparr>activeId := None\<rparr>)"
    using xs dis by (simp add: moveWithin_def findIndex_position Let_def)
  finally show ?thesis .
qed

theorem drop_on_own_container_witness:
  "list_ex (\<lambda>r. row_id r = ''T1'') (rows cross_example) \<and>
   findContainer (rows cross_example) (items cross_example) ''b'' = Some ''T1'' \<and>
   map_of (items cross_example) ''T1'' = Some [img ''a'', img ''b''] \<and>
   handleDragEnd (drop_image ''b'' ''T1'' ROW) cross_example
     = Inr (cross_example\<lparr>activeId := None\<rparr>)"
proof -
  have 1: "''T1'' = UNRANKED_ID \<or> list_ex (\<lambda>r. row_id r = ''T1'') (rows cross_example)"
    and 2: "findContainer (rows cross_example) (items cross_example)
              (active_id (drop_image ''b'' ''T1'' ROW)) = Some ''T1''"
    and 3: "map_of (items cross_example) ''T1'' = Some [img ''a'', img ''b'']"
    and 4: "\<not> list_ex (\<lambda>x. image_id x = ''T1'') [img ''a'', img ''b'']"
    and ty: "active_type (drop_image ''b'' ''T1'' ROW) = Some IMAGE"
    and ov: "over (drop_image ''b'' ''T1'' ROW) = Some (''T1'', Some ROW)"
    by (simp_all add: example_defs findContainer_def)
  from drop_on_own_container[OF ty ov 1 2 3 4] 1 2 3 show ?thesis
    by (simp add: example_defs)
qed

end
